theory Spec2Isabelle
  imports Main "HOL-Library.Sublist" "HOL-Library.Char_ord" "HOL-Library.List_Lexorder"
begin

section \<open>Asynchronous calls and their outcomes\<close>

text \<open>
  Every \<^verbatim>\<open>await\<close> of the service either yields a value, rejects with an error (of
  which the code only ever reads \<^verbatim>\<open>error.message\<close>), or never settles. A program is a
  function from the state to an outcome and the state it leaves behind.
\<close>

datatype 'a res = Ok 'a | Throw string | Never

definition ret :: "'a \<Rightarrow> 's \<Rightarrow> 'a res \<times> 's" where
  "ret x s = (Ok x, s)"

definition raise :: "string \<Rightarrow> 's \<Rightarrow> 'a res \<times> 's" where
  "raise m s = (Throw m, s)"

definition then_do :: "('s \<Rightarrow> 'a res \<times> 's) \<Rightarrow> ('a \<Rightarrow> 's \<Rightarrow> 'b res \<times> 's) \<Rightarrow> 's \<Rightarrow> 'b res \<times> 's" where
  "then_do m f s =
     (case m s of
        (Ok x, s') \<Rightarrow> f x s'
      | (Throw e, s') \<Rightarrow> (Throw e, s')
      | (Never, s') \<Rightarrow> (Never, s'))"

definition try_catch :: "('s \<Rightarrow> 'a res \<times> 's) \<Rightarrow> (string \<Rightarrow> 's \<Rightarrow> 'a res \<times> 's) \<Rightarrow> 's \<Rightarrow> 'a res \<times> 's" where
  "try_catch m h s =
     (case m s of
        (Throw e, s') \<Rightarrow> h e s'
      | (Ok x, s') \<Rightarrow> (Ok x, s')
      | (Never, s') \<Rightarrow> (Never, s'))"

text \<open>
  \<^verbatim>\<open>try { m } finally { c }\<close>: the block \<open>c\<close> runs when \<open>m\<close> has returned or thrown, and
  an exception of \<open>c\<close> replaces the outcome of \<open>m\<close>. When \<open>m\<close> never settles, \<open>c\<close> is not
  reached.
\<close>

definition try_finally :: "('s \<Rightarrow> 'a res \<times> 's) \<Rightarrow> ('s \<Rightarrow> unit res \<times> 's) \<Rightarrow> 's \<Rightarrow> 'a res \<times> 's" where
  "try_finally m c s =
     (case m s of
        (Never, s') \<Rightarrow> (Never, s')
      | (r, s') \<Rightarrow>
          (case c s' of
             (Ok u, s'') \<Rightarrow> (r, s'')
           | (Throw e, s'') \<Rightarrow> (Throw e, s'')
           | (Never, s'') \<Rightarrow> (Never, s'')))"

section \<open>Data model\<close>

text \<open>A string holds its text in the UTF-8 encoding, one \<open>char\<close> for each byte.\<close>

text \<open>The \<^verbatim>\<open>status\<close> enum of models/Task.js.\<close>

datatype status = PENDING | DOWNLOADING | EXTRACTING_AUDIO | TRANSCRIBING | DONE | FAILED

text \<open>
  A task document has the paths that the schema of models/Task.js declares: \<^verbatim>\<open>_id\<close>,
  \<^verbatim>\<open>url\<close>, \<^verbatim>\<open>status\<close>, \<^verbatim>\<open>text\<close>, \<^verbatim>\<open>errorMessage\<close>, \<^verbatim>\<open>createdAt\<close> and \<^verbatim>\<open>updatedAt\<close>
  (here \<open>task_id\<close>, \<open>task_url\<close> and \<open>task_text\<close> for the first, the second and the fourth).
  A path that is \<^verbatim>\<open>null\<close> or not set is \<open>None\<close>.
\<close>

record task =
  task_id :: string
  task_url :: "string option"
  status :: status
  task_text :: "string option"
  errorMessage :: "string option"
  createdAt :: nat
  updatedAt :: nat

text \<open>
  The paths of the schema by name. The schema is created without options, so it is strict:
  of an object handed to the constructor or to an update, Mongoose keeps the keys that the
  schema declares and drops the others.
\<close>

datatype jsval = JStr string | JNull

definition schema_paths :: "string list" where
  "schema_paths = [''_id'', ''url'', ''status'', ''text'', ''errorMessage'', ''createdAt'', ''updatedAt'']"

definition strict :: "(string \<times> jsval) list \<Rightarrow> (string \<times> jsval) list" where
  "strict obj = filter (\<lambda>kv. fst kv \<in> set schema_paths) obj"

fun string_value :: "jsval \<Rightarrow> string option" where
  "string_value (JStr v) = Some v"
| "string_value JNull = None"

text \<open>
  Setting a path of type String from a key of such an object. The controller hands over
  the status by itself (see \<open>update_doc\<close>) and never the id or a date.
\<close>

fun set_path :: "string \<times> jsval \<Rightarrow> task \<Rightarrow> task" where
  "set_path (k, v) d =
     (if k = ''url'' then d\<lparr>task_url := string_value v\<rparr>
      else if k = ''text'' then d\<lparr>task_text := string_value v\<rparr>
      else if k = ''errorMessage'' then d\<lparr>errorMessage := string_value v\<rparr>
      else d)"

text \<open>
  The fields of config/index.js that the pipeline reads. The key is a string, which may be
  empty: services/videoProcessor.js creates its client with
  \<^verbatim>\<open>new Groq({ apiKey: config.groqApiKey })\<close> when the module is loaded, and the constructor
  throws when the key is \<^verbatim>\<open>undefined\<close>, so with the variable \<^verbatim>\<open>GROQ_API_KEY\<close> not set no
  function of the service runs.
\<close>

record config =
  tempDir :: string
  downloadTimeout :: nat
  groqApiKey :: string

text \<open>
  What the collaborators outside the service answer. The HTTP client either delivers a
  response (its status, and how the piped body stream ends) or fails with one of the
  error shapes that \<^verbatim>\<open>downloadVideoFromUrl\<close> tells apart; a request that runs into its
  timeout is an Axios error that has a request and no response.
\<close>

datatype stream_end = Finish | WriterError string | StreamError string

datatype axios_outcome =
    Response nat stream_end
  | AxiosErrorResponse nat
  | AxiosErrorNoResponse string
  | AxiosErrorSetup string
  | OtherError string

datatype ffmpeg_outcome = FfmpegEnd | FfmpegError string bool

record env =
  cfg :: config
  store_error :: "status \<Rightarrow> string option"
  save_error :: "string option"
  uuidv4 :: string
  url_pathname :: "string \<Rightarrow> string option"
  path_extname :: "string \<Rightarrow> string"
  path_stem :: "string \<Rightarrow> string"
  axios :: "string \<Rightarrow> axios_outcome"
  ffmpeg_extract :: "string \<Rightarrow> ffmpeg_outcome"
  ensureDir_error :: "string \<Rightarrow> string option"
  ffmpeg_segment :: "string \<Rightarrow> (string \<times> string list) + string list"
  readdir_fails :: "string \<Rightarrow> bool"
  stat_size :: "string \<Rightarrow> nat option"
  groq_create :: "string \<Rightarrow> string + string option"
  exists_error :: "string \<Rightarrow> string option"
  remove_error :: "string \<Rightarrow> string option"
  removed_first :: "string \<Rightarrow> string \<Rightarrow> bool"

text \<open>
  \<^item> \<open>store_error env st\<close>: the message with which the store rejects the update that
    writes status \<open>st\<close> (a run issues at most one update per status);
  \<^item> \<open>save_error\<close>, \<open>uuidv4\<close>: the outcome of saving a new document and its generated id;
  \<^item> \<open>url_pathname\<close>: the path name of \<^verbatim>\<open>new URL(s)\<close>, \<open>None\<close> when the constructor throws;
  \<^item> \<open>path_extname\<close>, \<open>path_stem\<close>: \<^verbatim>\<open>path.extname\<close> and \<^verbatim>\<open>path.parse(p).name\<close>;
  \<^item> \<open>ffmpeg_extract\<close>: the run of ffmpeg on a video; an error says whether it left an
    output file behind;
  \<^item> \<open>ffmpeg_segment\<close>: the names of the files that the segmenting run wrote to the chunk
    directory, with the error message when it failed;
  \<^item> \<open>stat_size\<close>: the size \<^verbatim>\<open>fs.stat\<close> reports, \<open>None\<close> when it rejects;
  \<^item> \<open>groq_create\<close>: the transcription request for a chunk throws, or answers with a text
    or without one;
  \<^item> \<open>exists_error\<close>, \<open>remove_error\<close>, \<open>ensureDir_error\<close>: the message with which the
    file-system call on that path rejects;
  \<^item> \<open>removed_first env p q\<close>: the removal of \<open>p\<close>, when it rejects, has deleted \<open>q\<close> before.
\<close>

datatype write_outcome = Applied | NotFound | Rejected

datatype optval = Str string | Num nat

datatype event =
    Update string status write_outcome
  | AxiosRequest "(string \<times> optval) list"
  | GroqRequest "(string \<times> optval) list"
  | ConsoleError string

text \<open>
  The state: the Task collection, the paths that exist below the temporary directory, the
  calls made so far (store updates, outbound requests, and what the cleanup routines and
  the catch block of \<^verbatim>\<open>processVideoTask\<close> report with \<^verbatim>\<open>console.error\<close>), the clock, and the three \<^verbatim>\<open>let\<close> variables of \<^verbatim>\<open>processVideoTask\<close>,
  which its finally block reads as the try block left them.
\<close>

record state =
  tasks :: "string \<rightharpoonup> task"
  files :: "string set"
  trace :: "event list"
  now :: nat
  tempVideoPath :: "string option"
  tempFullPath :: "string option"
  audioChunkPaths :: "string list"

definition emit :: "event \<Rightarrow> state \<Rightarrow> unit res \<times> state" where
  "emit e s = (Ok (), s\<lparr>trace := trace s @ [e]\<rparr>)"

definition console_error :: "string \<Rightarrow> state \<Rightarrow> unit res \<times> state" where
  "console_error m = emit (ConsoleError m)"

section \<open>File system\<close>

definition path_join :: "string \<Rightarrow> string \<Rightarrow> string" where
  "path_join d f = d @ ''/'' @ f"

definition under :: "string \<Rightarrow> string \<Rightarrow> bool" where
  "under d p \<longleftrightarrow> p = d \<or> prefix (d @ ''/'') p"

definition fs_pathExists :: "env \<Rightarrow> string \<Rightarrow> state \<Rightarrow> bool res \<times> state" where
  "fs_pathExists e p s =
     (case exists_error e p of
        Some m \<Rightarrow> (Throw m, s)
      | None \<Rightarrow> (Ok (p \<in> files s), s))"

text \<open>
  \<^verbatim>\<open>fs.remove\<close> deletes a file, or a directory with everything below it. It works its way
  up from below: when it rejects, the path itself is still there, and what it had deleted
  below the path by then is gone.
\<close>

definition fs_remove :: "env \<Rightarrow> string \<Rightarrow> state \<Rightarrow> unit res \<times> state" where
  "fs_remove e p s =
     (case remove_error e p of
        Some m \<Rightarrow> (Throw m, s\<lparr>files := {q \<in> files s. \<not> (under p q \<and> q \<noteq> p \<and> removed_first e p q)}\<rparr>)
      | None \<Rightarrow> (Ok (), s\<lparr>files := {q \<in> files s. \<not> under p q}\<rparr>))"

subsection \<open>utils/fileHandler.js: cleanupFiles\<close>

definition cleanup_path :: "env \<Rightarrow> string \<Rightarrow> state \<Rightarrow> unit res \<times> state" where
  "cleanup_path e filePath =
     try_catch
       (then_do (fs_pathExists e filePath)
          (\<lambda>exists. if exists then fs_remove e filePath else ret ()))
       (\<lambda>m. console_error (''Error cleaning up file '' @ filePath @ '': '' @ m))"

text \<open>
  The loop over the rest parameter. \<^verbatim>\<open>if (filePath)\<close> skips \<^verbatim>\<open>null\<close>, \<^verbatim>\<open>undefined\<close> and
  the empty string.
\<close>

fun cleanupFiles :: "env \<Rightarrow> string option list \<Rightarrow> state \<Rightarrow> unit res \<times> state" where
  "cleanupFiles e [] = ret ()"
| "cleanupFiles e (filePath # rest) =
     then_do
       (case filePath of
          None \<Rightarrow> ret ()
        | Some p \<Rightarrow> if p = [] then ret () else cleanup_path e p)
       (\<lambda>_. cleanupFiles e rest)"

subsection \<open>services/videoProcessor.js: cleanupChunks\<close>

definition chunkDir_of :: "env \<Rightarrow> string \<Rightarrow> string" where
  "chunkDir_of e taskId = path_join (tempDir (cfg e)) (taskId @ ''_chunks'')"

definition cleanupChunks :: "env \<Rightarrow> string \<Rightarrow> state \<Rightarrow> unit res \<times> state" where
  "cleanupChunks e taskId =
     (let chunkDir = chunkDir_of e taskId in
      try_catch
        (then_do (fs_pathExists e chunkDir)
           (\<lambda>exists. if exists then fs_remove e chunkDir else ret ()))
        (\<lambda>m. console_error (''Error cleaning up chunk directory '' @ chunkDir @ '': '' @ m)))"

section \<open>Task store\<close>

text \<open>
  The update objects the controller passes to \<^verbatim>\<open>Task.findByIdAndUpdate\<close>: every one of
  them has the key \<^verbatim>\<open>status\<close>; \<open>set_fields\<close> holds its other keys with their values, in the
  order in which the object literal writes them.
\<close>

record update_doc =
  set_status :: status
  set_fields :: "(string \<times> jsval) list"

definition status_only :: "status \<Rightarrow> update_doc" where
  "status_only st = \<lparr>set_status = st, set_fields = []\<rparr>"

text \<open>
  Applying an update to a document: the keys that the schema declares are set, and the
  \<^verbatim>\<open>findOneAndUpdate\<close> hook of the schema refreshes \<^verbatim>\<open>updatedAt\<close>.
\<close>

definition apply_update :: "update_doc \<Rightarrow> nat \<Rightarrow> task \<Rightarrow> task" where
  "apply_update u t d =
     (fold set_path (strict (set_fields u)) (d\<lparr>status := set_status u\<rparr>))\<lparr>updatedAt := t\<rparr>"

text \<open>
  \<^verbatim>\<open>findByIdAndUpdate(id, update, { new: true })\<close> rejects when the store fails, resolves to
  \<^verbatim>\<open>null\<close> when no document has the id, and otherwise applies the update in one step and
  resolves to the updated document.
\<close>

definition findByIdAndUpdate :: "env \<Rightarrow> string \<Rightarrow> update_doc \<Rightarrow> state \<Rightarrow> task option res \<times> state" where
  "findByIdAndUpdate e taskId u s =
     (case store_error e (set_status u) of
        Some m \<Rightarrow> (Throw m, s\<lparr>trace := trace s @ [Update taskId (set_status u) Rejected]\<rparr>)
      | None \<Rightarrow>
          (case tasks s taskId of
             None \<Rightarrow> (Ok None, s\<lparr>trace := trace s @ [Update taskId (set_status u) NotFound]\<rparr>)
           | Some d \<Rightarrow>
               (Ok (Some (apply_update u (now s) d)),
                s\<lparr>tasks := (tasks s)(taskId \<mapsto> apply_update u (now s) d),
                  trace := trace s @ [Update taskId (set_status u) Applied]\<rparr>)))"

text \<open>
  \<^verbatim>\<open>new Task(obj)\<close>: the defaults of the schema (a fresh id, status PENDING, \<^verbatim>\<open>null\<close> for
  \<^verbatim>\<open>text\<close> and \<^verbatim>\<open>errorMessage\<close>, the time for the two dates), and the declared keys of
  \<open>obj\<close>. The path \<^verbatim>\<open>url\<close> has no default.
\<close>

definition new_Task :: "env \<Rightarrow> (string \<times> jsval) list \<Rightarrow> nat \<Rightarrow> task" where
  "new_Task e obj t =
     fold set_path (strict obj)
       \<lparr>task_id = uuidv4 e, task_url = None, status = PENDING, task_text = None,
        errorMessage = None, createdAt = t, updatedAt = t\<rparr>"

text \<open>
  The validation that \<^verbatim>\<open>save\<close> runs first: \<^verbatim>\<open>url\<close> is the one path declared
  \<^verbatim>\<open>required: true\<close>.
\<close>

definition validation_error :: "task \<Rightarrow> string option" where
  "validation_error d =
     (if task_url d = None then Some ''Task validation failed: url: Path `url` is required.''
      else None)"

text \<open>
  \<^verbatim>\<open>save\<close> rejects when the document is not valid, when the store fails or when the id is
  already taken; the \<^verbatim>\<open>save\<close> hook of the schema refreshes \<^verbatim>\<open>updatedAt\<close>.
\<close>

definition save :: "env \<Rightarrow> task \<Rightarrow> state \<Rightarrow> unit res \<times> state" where
  "save e d s =
     (case validation_error d of
        Some m \<Rightarrow> (Throw m, s)
      | None \<Rightarrow>
          (case save_error e of
             Some m \<Rightarrow> (Throw m, s)
           | None \<Rightarrow>
               if task_id d \<in> dom (tasks s) then (Throw ''E11000 duplicate key error'', s)
               else (Ok (), s\<lparr>tasks := (tasks s)(task_id d \<mapsto> d\<lparr>updatedAt := now s\<rparr>)\<rparr>)))"

section \<open>utils/fileHandler.js: downloadVideoFromUrl\<close>

fun string_of_nat :: "nat \<Rightarrow> string" where
  "string_of_nat n =
     (if n < 10 then [char_of (48 + n)]
      else string_of_nat (n div 10) @ [char_of (48 + n mod 10)])"

declare string_of_nat.simps [simp del]

definition download_suffix :: "env \<Rightarrow> string \<Rightarrow> string" where
  "download_suffix e url =
     (case url_pathname e url of
        None \<Rightarrow> ''.mp4''
      | Some pathname \<Rightarrow>
          (let pathSuffix = path_extname e pathname in
           if pathSuffix \<noteq> [] \<and> 1 < length pathSuffix \<and> length pathSuffix \<le> 6
           then pathSuffix else ''.mp4''))"

definition tempFilePath_of :: "env \<Rightarrow> string \<Rightarrow> string \<Rightarrow> string" where
  "tempFilePath_of e url taskId =
     path_join (tempDir (cfg e)) (taskId @ ''_downloaded'' @ download_suffix e url)"

definition download_options :: "env \<Rightarrow> string \<Rightarrow> (string \<times> optval) list" where
  "download_options e url =
     [(''method'', Str ''get''), (''url'', Str url), (''responseType'', Str ''stream''),
      (''timeout'', Num (downloadTimeout (cfg e)))]"

text \<open>
  \<^verbatim>\<open>fs.remove(tempFilePath).catch(...)\<close>: the partial download is removed, and a failure
  to remove it is swallowed.
\<close>

definition remove_partial :: "env \<Rightarrow> string \<Rightarrow> state \<Rightarrow> unit res \<times> state" where
  "remove_partial e p = try_catch (fs_remove e p) (\<lambda>m. ret ())"

text \<open>
  The catch block of the download: it removes the partial file and rethrows with a
  message chosen by the shape of the error.
\<close>

definition download_failed :: "env \<Rightarrow> string \<Rightarrow> string \<Rightarrow> state \<Rightarrow> string res \<times> state" where
  "download_failed e p msg = then_do (remove_partial e p) (\<lambda>_. raise msg)"

definition downloadVideoFromUrl :: "env \<Rightarrow> string \<Rightarrow> string \<Rightarrow> state \<Rightarrow> string res \<times> state" where
  "downloadVideoFromUrl e url taskId s =
     (let tempFilePath = tempFilePath_of e url taskId;
          s1 = s\<lparr>files := insert tempFilePath (files s),
                 trace := trace s @ [AxiosRequest (download_options e url)]\<rparr>
      in case axios e url of
           Response code ending \<Rightarrow>
             if code < 200 \<or> 300 \<le> code
             then download_failed e tempFilePath
                    (''Download failed: Server responded with status code '' @ string_of_nat code) s1
             else (case ending of
                     Finish \<Rightarrow> (Ok tempFilePath, s1)
                   | WriterError m \<Rightarrow>
                       then_do (remove_partial e tempFilePath)
                         (\<lambda>_. raise (''Failed to write video file: '' @ m)) s1
                   | StreamError m \<Rightarrow>
                       then_do (remove_partial e tempFilePath)
                         (\<lambda>_. raise (''Download stream error: '' @ m)) s1)
         | AxiosErrorResponse code \<Rightarrow>
             download_failed e tempFilePath
               (''Download failed: Server responded with status '' @ string_of_nat code) s1
         | AxiosErrorNoResponse m \<Rightarrow>
             download_failed e tempFilePath
               ''Download failed: No response received from server.'' s1
         | AxiosErrorSetup m \<Rightarrow>
             download_failed e tempFilePath (''Download failed: '' @ m) s1
         | OtherError m \<Rightarrow>
             download_failed e tempFilePath (''Download failed: '' @ m) s1)"

section \<open>services/videoProcessor.js\<close>

subsection \<open>extractAudio\<close>

definition getFullAudioPath :: "env \<Rightarrow> string \<Rightarrow> string \<Rightarrow> string" where
  "getFullAudioPath e baseFilename extension =
     path_join (tempDir (cfg e)) (path_stem e baseFilename @ ''_full_audio.'' @ extension)"

definition extractAudio :: "env \<Rightarrow> string \<Rightarrow> state \<Rightarrow> string res \<times> state" where
  "extractAudio e videoPath s =
     (let audioPath = getFullAudioPath e videoPath ''mp3'' in
      case ffmpeg_extract e videoPath of
        FfmpegEnd \<Rightarrow> (Ok audioPath, s\<lparr>files := insert audioPath (files s)\<rparr>)
      | FfmpegError m left \<Rightarrow>
          (Throw (''ffmpeg error: '' @ m),
           if left then s\<lparr>files := insert audioPath (files s)\<rparr> else s))"

subsection \<open>splitAudio\<close>

definition size_limit :: nat where
  "size_limit = 25 * 1024 * 1024"

definition is_chunk_name :: "string \<Rightarrow> bool" where
  "is_chunk_name file \<longleftrightarrow> prefix ''chunk_'' file \<and> suffix ''.mp3'' file"

text \<open>
  The \<^verbatim>\<open>end\<close> handler of the segmenting run is an async function of its own: when
  \<^verbatim>\<open>readdir\<close> or \<^verbatim>\<open>stat\<close> rejects in it, neither \<^verbatim>\<open>resolve\<close> nor \<^verbatim>\<open>reject\<close> is called and
  the promise of \<^verbatim>\<open>splitAudio\<close> never settles.
\<close>

definition splitAudio :: "env \<Rightarrow> string \<Rightarrow> string \<Rightarrow> state \<Rightarrow> string list res \<times> state" where
  "splitAudio e fullAudioPath taskId s =
     (let chunkDir = chunkDir_of e taskId in
      case ensureDir_error e chunkDir of
        Some m \<Rightarrow> (Throw m, s)
      | None \<Rightarrow>
          (let s1 = s\<lparr>files := insert chunkDir (files s)\<rparr> in
           case ffmpeg_segment e fullAudioPath of
             Inl (m, names) \<Rightarrow>
               (Throw (''ffmpeg splitting error: '' @ m),
                s1\<lparr>files := files s1 \<union> set (map (path_join chunkDir) names)\<rparr>)
           | Inr names \<Rightarrow>
               (let s2 = s1\<lparr>files := files s1 \<union> set (map (path_join chunkDir) names)\<rparr>;
                    chunkPaths = sort (map (path_join chunkDir) (filter is_chunk_name names))
                in if readdir_fails e chunkDir then (Never, s2)
                   else if chunkPaths = [] then
                     (case stat_size e fullAudioPath of
                        None \<Rightarrow> (Never, s2)
                      | Some sz \<Rightarrow>
                          if sz < size_limit then (Ok [fullAudioPath], s2)
                          else (Throw ''Audio splitting failed to produce chunk files for a large input.'', s2))
                   else (Ok chunkPaths, s2))))"

subsection \<open>transcribeAudio\<close>

definition fs_stat :: "env \<Rightarrow> string \<Rightarrow> state \<Rightarrow> nat res \<times> state" where
  "fs_stat e p s =
     (case stat_size e p of
        None \<Rightarrow> (Throw (''ENOENT: no such file or directory, stat '' @ p), s)
      | Some sz \<Rightarrow> (Ok sz, s))"

definition transcription_options :: "string \<Rightarrow> (string \<times> optval) list" where
  "transcription_options chunkPath = [(''file'', Str chunkPath), (''model'', Str ''whisper-large-v3'')]"

definition transcriptions_create :: "env \<Rightarrow> string \<Rightarrow> state \<Rightarrow> string option res \<times> state" where
  "transcriptions_create e chunkPath s =
     (let s1 = s\<lparr>trace := trace s @ [GroqRequest (transcription_options chunkPath)]\<rparr> in
      case groq_create e chunkPath of
        Inl m \<Rightarrow> (Throw m, s1)
      | Inr text \<Rightarrow> (Ok text, s1))"

text \<open>
  One turn of the loop: it yields the new value of \<^verbatim>\<open>combinedTranscript\<close>. The two
  \<^verbatim>\<open>continue\<close> statements and the catch block leave it as it was.
\<close>

definition transcribe_chunk :: "env \<Rightarrow> string \<Rightarrow> string \<Rightarrow> state \<Rightarrow> string res \<times> state" where
  "transcribe_chunk e chunkPath combinedTranscript =
     try_catch
       (then_do (fs_stat e chunkPath)
          (\<lambda>sz. if size_limit \<le> sz then ret combinedTranscript
                else if sz = 0 then ret combinedTranscript
                else then_do (transcriptions_create e chunkPath)
                       (\<lambda>text. case text of
                                 None \<Rightarrow> ret combinedTranscript
                               | Some t \<Rightarrow> if t = [] then ret combinedTranscript
                                           else ret (combinedTranscript @ t @ '' ''))))
       (\<lambda>m. ret combinedTranscript)"

fun transcribe_loop :: "env \<Rightarrow> string list \<Rightarrow> string \<Rightarrow> state \<Rightarrow> string res \<times> state" where
  "transcribe_loop e [] combinedTranscript = ret combinedTranscript"
| "transcribe_loop e (chunkPath # rest) combinedTranscript =
     then_do (transcribe_chunk e chunkPath combinedTranscript) (transcribe_loop e rest)"

text \<open>
  \<^verbatim>\<open>String.prototype.trim\<close> strips the code points of WhiteSpace and LineTerminator from
  both ends of a string: U+0009 to U+000D, U+0020, U+00A0, U+1680, U+2000 to U+200A, U+2028,
  U+2029, U+202F, U+205F, U+3000 and U+FEFF. \<open>white_space\<close> lists their encodings.
\<close>

definition white_space :: "string list" where
  "white_space =
     [[CHR 0x09], [CHR 0x0A], [CHR 0x0B], [CHR 0x0C], [CHR 0x0D], [CHR 0x20],
      [CHR 0xC2, CHR 0xA0],
      [CHR 0xE1, CHR 0x9A, CHR 0x80],
      [CHR 0xE2, CHR 0x80, CHR 0x80], [CHR 0xE2, CHR 0x80, CHR 0x81], [CHR 0xE2, CHR 0x80, CHR 0x82],
      [CHR 0xE2, CHR 0x80, CHR 0x83], [CHR 0xE2, CHR 0x80, CHR 0x84], [CHR 0xE2, CHR 0x80, CHR 0x85],
      [CHR 0xE2, CHR 0x80, CHR 0x86], [CHR 0xE2, CHR 0x80, CHR 0x87], [CHR 0xE2, CHR 0x80, CHR 0x88],
      [CHR 0xE2, CHR 0x80, CHR 0x89], [CHR 0xE2, CHR 0x80, CHR 0x8A],
      [CHR 0xE2, CHR 0x80, CHR 0xA8], [CHR 0xE2, CHR 0x80, CHR 0xA9], [CHR 0xE2, CHR 0x80, CHR 0xAF],
      [CHR 0xE2, CHR 0x81, CHR 0x9F],
      [CHR 0xE3, CHR 0x80, CHR 0x80],
      [CHR 0xEF, CHR 0xBB, CHR 0xBF]]"

text \<open>
  The length of the first of the sequences \<open>ws\<close> with which \<open>t\<close> starts, 0 when it starts
  with none; \<open>strip ws t\<close> drops such sequences from the start of \<open>t\<close> as long as there is
  one.
\<close>

definition leading :: "string list \<Rightarrow> string \<Rightarrow> nat" where
  "leading ws t = (case find (\<lambda>w. prefix w t) ws of None \<Rightarrow> 0 | Some w \<Rightarrow> length w)"

function strip :: "string list \<Rightarrow> string \<Rightarrow> string" where
  "strip ws t = (if leading ws t = 0 then t else strip ws (drop (leading ws t) t))"
  by pat_completeness auto

termination
proof (relation "measure (\<lambda>(ws, t). length t)")
  show "wf (measure (\<lambda>(ws, t). length t))" by simp
next
  fix ws :: "string list" and t :: string
  assume a: "leading ws t \<noteq> 0"
  then obtain w where w: "find (\<lambda>w. prefix w t) ws = Some w" "length w = leading ws t"
    by (auto simp: leading_def split: option.splits)
  from w(1) have "prefix w t" by (auto simp: find_Some_iff)
  then have "leading ws t \<le> length t" using w(2) prefix_length_le by fastforce
  then show "((ws, drop (leading ws t) t), ws, t) \<in> measure (\<lambda>(ws, t). length t)"
    using a by simp
qed

declare strip.simps [simp del]

definition trim :: "string \<Rightarrow> string" where
  "trim t = rev (strip (map rev white_space) (rev (strip white_space t)))"

text \<open>The guard \<^verbatim>\<open>if (!config.groqApiKey)\<close>.\<close>

definition key_missing :: "env \<Rightarrow> bool" where
  "key_missing e \<longleftrightarrow> groqApiKey (cfg e) = []"

definition transcribeAudio :: "env \<Rightarrow> string list \<Rightarrow> state \<Rightarrow> string res \<times> state" where
  "transcribeAudio e chunkPaths =
     (if key_missing e then raise ''Transcription failed: Groq API Key is not configured.''
      else then_do (transcribe_loop e chunkPaths []) (\<lambda>combinedTranscript. ret (trim combinedTranscript)))"

section \<open>controllers/taskController.js\<close>

subsection \<open>processVideoTask\<close>

text \<open>
  The guard on the result of \<^verbatim>\<open>transcribeAudio\<close> tests for \<^verbatim>\<open>null\<close> and \<^verbatim>\<open>undefined\<close>
  only.
\<close>

definition transcript_guard :: "string option \<Rightarrow> state \<Rightarrow> unit res \<times> state" where
  "transcript_guard tr =
     (case tr of
        None \<Rightarrow> raise ''Transcription resulted in empty text.''
      | Some t \<Rightarrow> ret ())"

text \<open>
  The objects \<^verbatim>\<open>{ status: 'DONE', transcript: transcript, errorMessage: null }\<close> and
  \<^verbatim>\<open>{ status: 'FAILED', errorMessage: errorMsg }\<close>.
\<close>

definition done_update :: "string \<Rightarrow> update_doc" where
  "done_update t =
     \<lparr>set_status = DONE, set_fields = [(''transcript'', JStr t), (''errorMessage'', JNull)]\<rparr>"

definition failed_update :: "string \<Rightarrow> update_doc" where
  "failed_update errorMsg = \<lparr>set_status = FAILED, set_fields = [(''errorMessage'', JStr errorMsg)]\<rparr>"

definition try_block :: "env \<Rightarrow> string \<Rightarrow> string \<Rightarrow> state \<Rightarrow> unit res \<times> state" where
  "try_block e taskId url =
     then_do (findByIdAndUpdate e taskId (status_only DOWNLOADING)) (\<lambda>task.
     if task = None then raise ''Task not found after initial update.'' else
     then_do (downloadVideoFromUrl e url taskId) (\<lambda>videoPath.
     then_do (\<lambda>s. (Ok (), s\<lparr>tempVideoPath := Some videoPath\<rparr>)) (\<lambda>_.
     then_do (findByIdAndUpdate e taskId (status_only EXTRACTING_AUDIO)) (\<lambda>task.
     if task = None then raise ''Task not found before audio extraction.'' else
     then_do (extractAudio e videoPath) (\<lambda>fullPath.
     then_do (\<lambda>s. (Ok (), s\<lparr>tempFullPath := Some fullPath\<rparr>)) (\<lambda>_.
     then_do (splitAudio e fullPath taskId) (\<lambda>chunkPaths.
     then_do (\<lambda>s. (Ok (), s\<lparr>audioChunkPaths := chunkPaths\<rparr>)) (\<lambda>_.
     then_do (findByIdAndUpdate e taskId (status_only TRANSCRIBING)) (\<lambda>task.
     if task = None then raise ''Task not found before transcription.'' else
     then_do (transcribeAudio e chunkPaths) (\<lambda>t.
     then_do (transcript_guard (Some t)) (\<lambda>_.
     then_do (findByIdAndUpdate e taskId (done_update t)) (\<lambda>task.
     if task = None then raise ''Task not found when saving final result.''
     else ret ()))))))))))))"

definition catch_block :: "env \<Rightarrow> string \<Rightarrow> string \<Rightarrow> state \<Rightarrow> unit res \<times> state" where
  "catch_block e taskId message =
     (let errorMsg = ''Task failed: '' @ message in
      then_do (console_error (''[Task:'' @ taskId @ ''] '' @ errorMsg)) (\<lambda>_.
      try_catch
        (then_do (findByIdAndUpdate e taskId (failed_update errorMsg)) (\<lambda>task. ret ()))
        (\<lambda>dbMessage. console_error
           (''[Task:'' @ taskId @ ''] CRITICAL: Failed to update task status to FAILED: '' @ dbMessage))))"

definition finally_block :: "env \<Rightarrow> string \<Rightarrow> state \<Rightarrow> unit res \<times> state" where
  "finally_block e taskId =
     then_do (\<lambda>s. cleanupFiles e [tempVideoPath s, tempFullPath s] s) (\<lambda>_. cleanupChunks e taskId)"

text \<open>
  The declarations \<^verbatim>\<open>let tempVideoPath = null\<close>, \<^verbatim>\<open>let tempFullPath = null\<close> and
  \<^verbatim>\<open>let audioChunkPaths = []\<close> at the head of the routine.
\<close>

definition entry :: "state \<Rightarrow> state" where
  "entry s = s\<lparr>tempVideoPath := None, tempFullPath := None, audioChunkPaths := []\<rparr>"

text \<open>What the routine does up to the point where its finally block starts.\<close>

definition try_and_catch :: "env \<Rightarrow> string \<Rightarrow> string \<Rightarrow> state \<Rightarrow> unit res \<times> state" where
  "try_and_catch e taskId url s =
     try_catch (try_block e taskId url) (catch_block e taskId) (entry s)"

definition processVideoTask :: "env \<Rightarrow> string \<Rightarrow> string \<Rightarrow> state \<Rightarrow> unit res \<times> state" where
  "processVideoTask e taskId url =
     try_finally (try_and_catch e taskId url) (finally_block e taskId)"

subsection \<open>submitTask\<close>

datatype json = Message string | TaskId string

record response =
  code :: nat
  body :: json

text \<open>
  The argument is the \<^verbatim>\<open>videoUrl\<close> of the request body, \<open>None\<close> when the body has none.
  The handler answers with a response and, when it started the background processing,
  with the call it left running: \<^verbatim>\<open>processVideoTask(newTask._id, videoUrl)\<close> is not awaited,
  so none of its steps is part of the handler.
\<close>

definition submitTask :: "env \<Rightarrow> string option \<Rightarrow> state \<Rightarrow> (response \<times> (string \<times> string) option) res \<times> state" where
  "submitTask e requested =
     (case requested of
        None \<Rightarrow> ret (\<lparr>code = 400, body = Message ''Missing videoUrl in request body''\<rparr>, None)
      | Some url \<Rightarrow>
          if url = [] then ret (\<lparr>code = 400, body = Message ''Missing videoUrl in request body''\<rparr>, None)
          else if url_pathname e url = None
          then ret (\<lparr>code = 400, body = Message ''Invalid videoUrl format''\<rparr>, None)
          else try_catch
                 (then_do (\<lambda>s. save e (new_Task e [(''videoUrl'', JStr url)] (now s)) s)
                    (\<lambda>_. ret (\<lparr>code = 202, body = TaskId (uuidv4 e)\<rparr>, Some (uuidv4 e, url))))
                 (\<lambda>m. ret (\<lparr>code = 500, body = Message ''Failed to create processing task.''\<rparr>, None)))"

section \<open>Observing a run\<close>

text \<open>The calls to the store among the events of a trace, and those a run has added.\<close>

fun is_update :: "event \<Rightarrow> bool" where
  "is_update (Update t st out) = True"
| "is_update (AxiosRequest opts) = False"
| "is_update (GroqRequest opts) = False"
| "is_update (ConsoleError m) = False"

definition store_calls :: "state \<Rightarrow> event list" where
  "store_calls s = filter is_update (trace s)"

definition run_calls :: "state \<Rightarrow> state \<Rightarrow> event list" where
  "run_calls s s' = drop (length (store_calls s)) (store_calls s')"

text \<open>
  One step along the stage order PENDING, DOWNLOADING, EXTRACTING_AUDIO, TRANSCRIBING,
  DONE, or the step to FAILED from a status that is not terminal.
\<close>

definition forward :: "status \<Rightarrow> status \<Rightarrow> bool" where
  "forward st st' \<longleftrightarrow>
     (st, st') \<in> {(PENDING, DOWNLOADING), (DOWNLOADING, EXTRACTING_AUDIO),
                  (EXTRACTING_AUDIO, TRANSCRIBING), (TRANSCRIBING, DONE)} \<or>
     (st' = FAILED \<and> st \<noteq> DONE \<and> st \<noteq> FAILED)"

text \<open>
  \<open>follows taskId cur evs\<close>: the store calls \<open>evs\<close> all address \<open>taskId\<close>, every applied
  write moves the persisted status (\<open>cur\<close> at the start) one step forward, and a call that
  is not applied is issued only while the persisted status is not terminal. After an
  applied write of DONE or FAILED no continuation is admitted but the empty one.
\<close>

fun follows :: "string \<Rightarrow> status \<Rightarrow> event list \<Rightarrow> bool" where
  "follows taskId cur [] = True"
| "follows taskId cur (Update t st out # evs) =
     (t = taskId \<and>
      (if out = Applied then forward cur st \<and> follows taskId st evs
       else cur \<noteq> DONE \<and> cur \<noteq> FAILED \<and> follows taskId cur evs))"
| "follows taskId cur (AxiosRequest opts # evs) = False"
| "follows taskId cur (GroqRequest opts # evs) = False"
| "follows taskId cur (ConsoleError m # evs) = False"

text \<open>The statuses that the applied writes of a list of store calls persist, in order.\<close>

fun applied :: "event list \<Rightarrow> status list" where
  "applied [] = []"
| "applied (Update t st out # evs) = (if out = Applied then st # applied evs else applied evs)"
| "applied (AxiosRequest opts # evs) = applied evs"
| "applied (GroqRequest opts # evs) = applied evs"
| "applied (ConsoleError m # evs) = applied evs"

section \<open>Auxiliary notions for the proofs\<close>

text \<open>
  Between two states: the store, its call history, the clock and the variables of the
  routine are the same (the files and the other events may differ).
\<close>

definition same_store :: "state \<Rightarrow> state \<Rightarrow> bool" where
  "same_store s s' \<longleftrightarrow> tasks s' = tasks s \<and> now s' = now s \<and> store_calls s' = store_calls s \<and>
     tempVideoPath s' = tempVideoPath s \<and> tempFullPath s' = tempFullPath s \<and>
     audioChunkPaths s' = audioChunkPaths s"

definition stage_statuses :: "status list" where
  "stage_statuses = [DOWNLOADING, EXTRACTING_AUDIO, TRANSCRIBING, DONE]"

text \<open>
  \<open>stopped taskId d s k rej s1\<close>: starting from \<open>s\<close> with document \<open>d\<close>, the first \<open>k\<close>
  status writes have been applied and, when \<open>rej\<close>, the next one has been rejected.
\<close>

definition stopped :: "string \<Rightarrow> task \<Rightarrow> state \<Rightarrow> nat \<Rightarrow> bool \<Rightarrow> state \<Rightarrow> bool" where
  "stopped taskId d s k rej s1 \<longleftrightarrow>
     now s1 = now s \<and>
     tasks s1 = (if k = 0 then tasks s
                 else (tasks s)(taskId \<mapsto> d\<lparr>status := stage_statuses ! (k - 1), updatedAt := now s\<rparr>)) \<and>
     store_calls s1 = store_calls s @ map (\<lambda>st. Update taskId st Applied) (take k stage_statuses)
                        @ (if rej then [Update taskId (stage_statuses ! k) Rejected] else [])"

definition finished :: "string \<Rightarrow> task \<Rightarrow> state \<Rightarrow> state \<Rightarrow> bool" where
  "finished taskId d s s1 \<longleftrightarrow>
     now s1 = now s \<and>
     tasks s1 = (tasks s)(taskId \<mapsto> d\<lparr>status := DONE, errorMessage := None, updatedAt := now s\<rparr>) \<and>
     store_calls s1 = store_calls s @ map (\<lambda>st. Update taskId st Applied) stage_statuses"

text \<open>The paths that the download and the extraction of a task return.\<close>

definition audioPath_of :: "env \<Rightarrow> string \<Rightarrow> string \<Rightarrow> string" where
  "audioPath_of e url taskId = getFullAudioPath e (tempFilePath_of e url taskId) ''mp3''"

definition same_locals :: "state \<Rightarrow> state \<Rightarrow> bool" where
  "same_locals s s' \<longleftrightarrow> tempVideoPath s' = tempVideoPath s \<and> tempFullPath s' = tempFullPath s \<and>
     audioChunkPaths s' = audioChunkPaths s"

definition paths_known :: "env \<Rightarrow> string \<Rightarrow> string \<Rightarrow> state \<Rightarrow> bool" where
  "paths_known e taskId url s1 \<longleftrightarrow>
     (tempVideoPath s1 = None \<or> tempVideoPath s1 = Some (tempFilePath_of e url taskId)) \<and>
     (tempFullPath s1 = None \<or> tempFullPath s1 = Some (audioPath_of e url taskId))"

definition paths_recorded :: "env \<Rightarrow> string \<Rightarrow> string \<Rightarrow> state \<Rightarrow> bool" where
  "paths_recorded e taskId url s1 \<longleftrightarrow>
     tempVideoPath s1 = Some (tempFilePath_of e url taskId) \<and>
     tempFullPath s1 = Some (audioPath_of e url taskId)"

definition transcription_gives :: "env \<Rightarrow> string list \<Rightarrow> string \<Rightarrow> bool" where
  "transcription_gives e chunkPaths t \<longleftrightarrow> (\<exists>sx. fst (transcribeAudio e chunkPaths sx) = Ok t)"

definition transcription_fails :: "env \<Rightarrow> string list \<Rightarrow> bool" where
  "transcription_fails e chunkPaths \<longleftrightarrow> (\<exists>sx. \<forall>t. fst (transcribeAudio e chunkPaths sx) \<noteq> Ok t)"

text \<open>
  What the try block can have done when it is left: it ran to its end, or it stopped after
  \<open>k\<close> applied status writes, on a rejected write or on a stage that threw or never
  settled.
\<close>

definition try_outcome :: "env \<Rightarrow> string \<Rightarrow> string \<Rightarrow> task \<Rightarrow> state \<Rightarrow> bool" where
  "try_outcome e taskId url d s \<longleftrightarrow>
     paths_known e taskId url (snd (try_block e taskId url s)) \<and>
     ((\<exists>t. fst (try_block e taskId url s) = Ok () \<and>
           finished taskId d s (snd (try_block e taskId url s)) \<and>
           paths_recorded e taskId url (snd (try_block e taskId url s)) \<and>
           transcription_gives e (audioChunkPaths (snd (try_block e taskId url s))) t) \<or>
      (fst (try_block e taskId url s) \<noteq> Ok () \<and>
       (\<exists>k rej. k \<le> 3 \<and> (rej \<longrightarrow> fst (try_block e taskId url s) \<noteq> Never) \<and>
          stopped taskId d s k rej (snd (try_block e taskId url s)) \<and>
          (rej \<longrightarrow> store_error e (stage_statuses ! k) \<noteq> None) \<and>
          (k = 3 \<and> \<not> rej \<longrightarrow>
             transcription_fails e (audioChunkPaths (snd (try_block e taskId url s)))))))"

text \<open>
  The try block from the extraction on, from the splitting on and from the transcription
  on, as functions of the path or the chunk list that the step before has returned.
\<close>

definition after_split :: "env \<Rightarrow> string \<Rightarrow> string list \<Rightarrow> state \<Rightarrow> unit res \<times> state" where
  "after_split e taskId chunkPaths =
     then_do (findByIdAndUpdate e taskId (status_only TRANSCRIBING)) (\<lambda>task.
     if task = None then raise ''Task not found before transcription.'' else
     then_do (transcribeAudio e chunkPaths) (\<lambda>t.
     then_do (transcript_guard (Some t)) (\<lambda>_.
     then_do (findByIdAndUpdate e taskId (done_update t)) (\<lambda>task.
     if task = None then raise ''Task not found when saving final result.''
     else ret ()))))"

definition after_extract :: "env \<Rightarrow> string \<Rightarrow> string \<Rightarrow> state \<Rightarrow> unit res \<times> state" where
  "after_extract e taskId fullPath =
     then_do (splitAudio e fullPath taskId) (\<lambda>chunkPaths.
     then_do (\<lambda>s. (Ok (), s\<lparr>audioChunkPaths := chunkPaths\<rparr>)) (\<lambda>_.
     after_split e taskId chunkPaths))"

definition after_download :: "env \<Rightarrow> string \<Rightarrow> string \<Rightarrow> state \<Rightarrow> unit res \<times> state" where
  "after_download e taskId videoPath =
     then_do (findByIdAndUpdate e taskId (status_only EXTRACTING_AUDIO)) (\<lambda>task.
     if task = None then raise ''Task not found before audio extraction.'' else
     then_do (extractAudio e videoPath) (\<lambda>fullPath.
     then_do (\<lambda>s. (Ok (), s\<lparr>tempFullPath := Some fullPath\<rparr>)) (\<lambda>_.
     after_extract e taskId fullPath)))"

text \<open>Between two states: the files and the two path variables are the same.\<close>

definition same_files :: "state \<Rightarrow> state \<Rightarrow> bool" where
  "same_files s s' \<longleftrightarrow> files s' = files s \<and> tempVideoPath s' = tempVideoPath s \<and>
     tempFullPath s' = tempFullPath s"

text \<open>The extraction from a video fails and leaves an output file behind.\<close>

definition extract_left :: "env \<Rightarrow> string \<Rightarrow> bool" where
  "extract_left e videoPath =
     (case ffmpeg_extract e videoPath of FfmpegEnd \<Rightarrow> False | FfmpegError m left \<Rightarrow> left)"

text \<open>
  \<open>accounted e taskId url s s1\<close>: the two path variables hold nothing but the paths of the
  download and of the extraction, and every file of \<open>s1\<close> that is not a file of \<open>s\<close> is the
  downloaded video, held in its variable unless its removal rejects; or the extracted audio,
  held in its variable unless a failed extraction left it; or it is at or below the chunk
  directory, which is there.
\<close>

definition accounted :: "env \<Rightarrow> string \<Rightarrow> string \<Rightarrow> state \<Rightarrow> state \<Rightarrow> bool" where
  "accounted e taskId url s s1 \<longleftrightarrow>
     (tempVideoPath s1 = None \<or> tempVideoPath s1 = Some (tempFilePath_of e url taskId)) \<and>
     (tempFullPath s1 = None \<or> tempFullPath s1 = Some (audioPath_of e url taskId)) \<and>
     (\<forall>p \<in> files s1.
        p \<in> files s \<or>
        (p = tempFilePath_of e url taskId \<and> (tempVideoPath s1 = Some p \<or> remove_error e p \<noteq> None)) \<or>
        (p = audioPath_of e url taskId \<and>
           (tempFullPath s1 = Some p \<or> extract_left e (tempFilePath_of e url taskId))) \<or>
        (under (chunkDir_of e taskId) p \<and> chunkDir_of e taskId \<in> files s1))"

section \<open>A concrete environment\<close>

text \<open>
  An environment in which every collaborator succeeds: the download answers 200 and the
  stream finishes, ffmpeg extracts and writes one chunk, and the transcription of the
  chunk answers with a text. The store of \<open>state1\<close> holds the task \<open>''t1''\<close>, PENDING and with
  the defaults of the schema.
\<close>

definition config0 :: config where
  "config0 = \<lparr>tempDir = ''/tmp'', downloadTimeout = 120000, groqApiKey = ''key''\<rparr>"

definition env0 :: env where
  "env0 = \<lparr>cfg = config0,
           store_error = (\<lambda>st. None), save_error = None, uuidv4 = ''t1'',
           url_pathname = (\<lambda>u. if u = ''http://a.test/v.mp4'' then Some ''/v.mp4'' else None),
           path_extname = (\<lambda>p. ''.mp4''), path_stem = (\<lambda>p. ''v''),
           axios = (\<lambda>u. Response 200 Finish),
           ffmpeg_extract = (\<lambda>v. FfmpegEnd),
           ensureDir_error = (\<lambda>p. None),
           ffmpeg_segment = (\<lambda>p. Inr [''chunk_000.mp3'']),
           readdir_fails = (\<lambda>p. False),
           stat_size = (\<lambda>p. Some 1000),
           groq_create = (\<lambda>p. Inr (Some ''hello'')),
           exists_error = (\<lambda>p. None), remove_error = (\<lambda>p. None),
           removed_first = (\<lambda>p q. False)\<rparr>"

definition state0 :: state where
  "state0 = \<lparr>tasks = Map.empty, files = {}, trace = [], now = 7,
             tempVideoPath = None, tempFullPath = None, audioChunkPaths = []\<rparr>"

definition task1 :: task where
  "task1 = \<lparr>task_id = ''t1'', task_url = Some ''http://a.test/v.mp4'', status = PENDING,
            task_text = None, errorMessage = None, createdAt = 7, updatedAt = 7\<rparr>"

definition state1 :: state where
  "state1 = state0\<lparr>tasks := [''t1'' \<mapsto> task1]\<rparr>"

text \<open>
  The two ways in which a download runs into its timeout, with the message of the
  rejection: the request gets no response in time (the client fails with a request and no
  response), or the response has arrived and the body stream then fails.
\<close>

definition timeout_message :: "axios_outcome \<Rightarrow> string option" where
  "timeout_message out =
     (case out of
        AxiosErrorNoResponse m \<Rightarrow> Some ''Download failed: No response received from server.''
      | Response st ending \<Rightarrow>
          (case ending of
             StreamError m \<Rightarrow>
               if 200 \<le> st \<and> st < 300 then Some (''Download stream error: '' @ m) else None
           | Finish \<Rightarrow> None
           | WriterError m \<Rightarrow> None)
      | AxiosErrorResponse st \<Rightarrow> None
      | AxiosErrorSetup m \<Rightarrow> None
      | OtherError m \<Rightarrow> None)"

text \<open>The same environment with a download that runs into its timeout, in either way.\<close>

definition env_timeout :: env where
  "env_timeout = env0\<lparr>axios := (\<lambda>u. AxiosErrorNoResponse ''timeout of 120000ms exceeded'')\<rparr>"

definition env_stream_timeout :: env where
  "env_stream_timeout = env0\<lparr>axios := (\<lambda>u. Response 200 (StreamError ''timeout of 120000ms exceeded''))\<rparr>"

text \<open>
  \<open>failed_at taskId d s k rej m ap s3\<close>: as \<open>stopped\<close>, followed by the FAILED write of
  the catch block for the message \<open>m\<close>, applied (\<open>ap\<close>) or rejected.
\<close>

definition stamp :: "task \<Rightarrow> nat \<Rightarrow> nat \<Rightarrow> task" where
  "stamp d t k = (if k = 0 then d else d\<lparr>status := stage_statuses ! (k - 1), updatedAt := t\<rparr>)"

definition failed_at :: "string \<Rightarrow> task \<Rightarrow> state \<Rightarrow> nat \<Rightarrow> bool \<Rightarrow> string \<Rightarrow> bool \<Rightarrow> state \<Rightarrow> bool" where
  "failed_at taskId d s k rej m ap s3 \<longleftrightarrow>
     now s3 = now s \<and>
     tasks s3 =
       (if ap then (tasks s)(taskId \<mapsto>
                  (stamp d (now s) k)\<lparr>status := FAILED, errorMessage := Some (''Task failed: '' @ m),
                                      updatedAt := now s\<rparr>)
        else (tasks s)(taskId \<mapsto> stamp d (now s) k)) \<and>
     store_calls s3 = store_calls s @ map (\<lambda>st. Update taskId st Applied) (take k stage_statuses)
                        @ (if rej then [Update taskId (stage_statuses ! k) Rejected] else [])
                        @ [Update taskId FAILED (if ap then Applied else Rejected)]"

section \<open>What the transcription stage returns\<close>

text \<open>
  A chunk is skipped when its size cannot be read, is at or above the limit or is zero, or
  when its transcription request throws.
\<close>

definition skipped :: "env \<Rightarrow> string \<Rightarrow> bool" where
  "skipped e chunkPath \<longleftrightarrow>
     (case stat_size e chunkPath of
        None \<Rightarrow> True
      | Some sz \<Rightarrow> size_limit \<le> sz \<or> sz = 0 \<or>
          (case groq_create e chunkPath of Inl m \<Rightarrow> True | Inr text \<Rightarrow> False))"

text \<open>The transcript of a chunk: the text of the answer, empty when the answer has none.\<close>

definition chunk_text :: "env \<Rightarrow> string \<Rightarrow> string" where
  "chunk_text e chunkPath =
     (case groq_create e chunkPath of Inl m \<Rightarrow> [] | Inr None \<Rightarrow> [] | Inr (Some t) \<Rightarrow> t)"

text \<open>A transcript that is not empty is appended with a space after it.\<close>

definition spaced :: "string \<Rightarrow> string" where
  "spaced t = (if t = [] then [] else t @ '' '')"

definition joined :: "env \<Rightarrow> string list \<Rightarrow> string" where
  "joined e chunkPaths =
     concat (map (\<lambda>p. spaced (chunk_text e p)) (filter (\<lambda>p. \<not> skipped e p) chunkPaths))"

text \<open>The environment \<open>env0\<close> with chunks of size zero.\<close>

definition env_empty_chunks :: env where
  "env_empty_chunks = env0\<lparr>stat_size := (\<lambda>p. Some 0)\<rparr>"

text \<open>The environment \<open>env0\<close> in which the downloaded video cannot be removed.\<close>

definition env_busy :: env where
  "env_busy = env0\<lparr>remove_error :=
     (\<lambda>p. if p = ''/tmp/t1_downloaded.mp4'' then Some ''EBUSY: resource busy or locked'' else None)\<rparr>"

text \<open>
  Further variants of \<open>env0\<close>: the API key is the empty string; every transcription request
  times out; and three chunks of which the second is at the size limit.
\<close>

definition env_empty_key :: env where
  "env_empty_key = env0\<lparr>cfg := config0\<lparr>groqApiKey := []\<rparr>\<rparr>"

definition env_groq_timeout :: env where
  "env_groq_timeout = env0\<lparr>groq_create := (\<lambda>p. Inl ''Request timed out.'')\<rparr>"

definition env_three_chunks :: env where
  "env_three_chunks = env0\<lparr>
     stat_size := (\<lambda>p. if p = ''b'' then Some (25 * 1024 * 1024) else Some 1000),
     groq_create := (\<lambda>p. if p = ''a'' then Inr (Some ''hello'') else Inr (Some ''world''))\<rparr>"

section \<open>Agent registry\<close>

text \<open>
  Modelled from the spec: the registry service itself (its \<^verbatim>\<open>register\<close>, \<^verbatim>\<open>list\<close> and
  \<^verbatim>\<open>get\<close> operations and its store) is not among the sources, which hold only its README
  and the script that exercises its HTTP interface. The definitions follow sections 3 and
  4.3 of the specification. The fetch of the descriptor and the normalisation of the url
  are parameters.
\<close>

record skill =
  skill_id :: string
  skill_name :: string
  skill_description :: string
  skill_examples :: "string list"

text \<open>A descriptor as fetched: the required fields may be missing.\<close>

record descriptor =
  d_name :: "string option"
  d_description :: string
  d_url :: "string option"
  d_version :: string
  d_skills :: "skill list option"
  d_provider :: string

record agent_card =
  card_name :: string
  card_description :: string
  card_url :: string
  card_version :: string
  card_skills :: "skill list"
  card_provider :: string

record agent_record =
  agent_url :: string
  card :: agent_card
  registeredAt :: nat
  lastRefreshedAt :: nat

datatype fetch_outcome = Fetched descriptor | FetchTimeout | FetchStatus nat

datatype registry_error = UnreachableAgent | MalformedDescriptor | AgentNotFound

text \<open>
  Modelled from the spec: validation requires the name and the url; the list of skills may
  be empty.
\<close>

definition validate :: "descriptor \<Rightarrow> agent_card option" where
  "validate dsc =
     (case (d_name dsc, d_url dsc, d_skills dsc) of
        (Some n, Some u, Some sk) \<Rightarrow>
          Some \<lparr>card_name = n, card_description = d_description dsc, card_url = u,
                card_version = d_version dsc, card_skills = sk, card_provider = d_provider dsc\<rparr>
      | _ \<Rightarrow> None)"

text \<open>
  Modelled from the spec: the upsert by normalised url. A known url has its card and
  \<^verbatim>\<open>lastRefreshedAt\<close> replaced; an unknown one gets a new record at the end of the list.
\<close>

fun upsert :: "string \<Rightarrow> agent_card \<Rightarrow> nat \<Rightarrow> agent_record list \<Rightarrow> agent_record list" where
  "upsert key c t [] = [\<lparr>agent_url = key, card = c, registeredAt = t, lastRefreshedAt = t\<rparr>]"
| "upsert key c t (r # rs) =
     (if agent_url r = key then r\<lparr>card := c, lastRefreshedAt := t\<rparr> # rs
      else r # upsert key c t rs)"

fun get_agent :: "string \<Rightarrow> agent_record list \<Rightarrow> registry_error + agent_record" where
  "get_agent key [] = Inl AgentNotFound"
| "get_agent key (r # rs) = (if agent_url r = key then Inr r else get_agent key rs)"

definition list_agents :: "agent_record list \<Rightarrow> agent_record list" where
  "list_agents reg = reg"

text \<open>
  Modelled from the spec: \<^verbatim>\<open>register(url)\<close> fetches the descriptor, validates it, upserts
  by the normalised url and returns the stored record; it fails with
  \<^verbatim>\<open>UnreachableAgent\<close> when the fetch times out or answers with a status that is not a
  success, and with \<^verbatim>\<open>MalformedDescriptor\<close> when the validation fails, and then stores
  nothing.
\<close>

definition register :: "(string \<Rightarrow> fetch_outcome) \<Rightarrow> (string \<Rightarrow> string) \<Rightarrow> nat \<Rightarrow> string \<Rightarrow>
    agent_record list \<Rightarrow> registry_error + (agent_record \<times> agent_record list)" where
  "register fetch norm t u reg =
     (case fetch u of
        FetchTimeout \<Rightarrow> Inl UnreachableAgent
      | FetchStatus c \<Rightarrow> Inl UnreachableAgent
      | Fetched dsc \<Rightarrow>
          (case validate dsc of
             None \<Rightarrow> Inl MalformedDescriptor
           | Some c \<Rightarrow>
               (case get_agent (norm u) (upsert (norm u) c t reg) of
                  Inl err \<Rightarrow> Inl err
                | Inr r \<Rightarrow> Inr (r, upsert (norm u) c t reg))))"

text \<open>Two descriptors of the agent at \<^verbatim>\<open>http://a.test\<close>, of versions 1.0.0 and 2.0.0.\<close>

definition descriptor_v :: "string \<Rightarrow> descriptor" where
  "descriptor_v v = \<lparr>d_name = Some ''Summarizer'', d_description = ''Summarizes documents'',
     d_url = Some ''http://a.test'', d_version = v, d_skills = Some [], d_provider = ''UniTN''\<rparr>"

definition strip_slash :: "string \<Rightarrow> string" where
  "strip_slash u = rev (dropWhile (\<lambda>c. c = CHR ''/'') (rev u))"

section \<open>Basic facts\<close>

lemmas prog_defs = ret_def raise_def then_do_def try_catch_def emit_def console_error_def

lemmas fs_defs = fs_pathExists_def fs_remove_def

lemmas apply_update_simps = apply_update_def strict_def schema_paths_def

lemmas trim_eval = trim_def white_space_def leading_def strip.simps

lemma trim_Nil: "trim [] = []"
  by (simp add: trim_eval)

lemma same_store_refl [simp]: "same_store s s"
  by (simp add: same_store_def)

lemma same_store_trans: "same_store s s' \<Longrightarrow> same_store s' s'' \<Longrightarrow> same_store s s''"
  by (simp add: same_store_def)

lemma cleanup_path_same: "same_store s (snd (cleanup_path e p s))"
  by (simp add: cleanup_path_def prog_defs fs_defs same_store_def store_calls_def split: option.splits)

lemma cleanup_path_fst: "fst (cleanup_path e p s) = Ok ()"
  by (simp add: cleanup_path_def prog_defs fs_defs split: option.splits)

lemma cleanupFiles_fst: "fst (cleanupFiles e ps s) = Ok ()"
proof (induction ps arbitrary: s)
  case Nil
  show ?case by (simp add: ret_def)
next
  case (Cons fp ps)
  show ?case
    using Cons cleanup_path_fst [of e _ s]
    by (cases fp) (simp_all add: then_do_def ret_def case_prod_beta)
qed

lemma cleanupFiles_same: "same_store s (snd (cleanupFiles e ps s))"
proof (induction ps arbitrary: s)
  case Nil
  show ?case by (simp add: ret_def)
next
  case (Cons fp ps)
  show ?case
  proof (cases fp)
    case None
    then show ?thesis using Cons by (simp add: then_do_def ret_def)
  next
    case (Some p)
    show ?thesis
    proof (cases "p = []")
      case True
      then show ?thesis using Some Cons by (simp add: then_do_def ret_def)
    next
      case False
      have "same_store s (snd (cleanup_path e p s))" by (rule cleanup_path_same)
      moreover have "same_store (snd (cleanup_path e p s)) (snd (cleanupFiles e ps (snd (cleanup_path e p s))))"
        by (rule Cons)
      ultimately have "same_store s (snd (cleanupFiles e ps (snd (cleanup_path e p s))))"
        by (rule same_store_trans)
      then show ?thesis using Some False cleanup_path_fst [of e p s]
        by (simp add: then_do_def case_prod_beta)
    qed
  qed
qed

lemma cleanupChunks_fst: "fst (cleanupChunks e t s) = Ok ()"
  by (simp add: cleanupChunks_def Let_def prog_defs fs_defs split: option.splits)

lemma cleanupChunks_same: "same_store s (snd (cleanupChunks e t s))"
  by (simp add: cleanupChunks_def Let_def prog_defs fs_defs same_store_def store_calls_def split: option.splits)

lemma download_same: "same_store s (snd (downloadVideoFromUrl e url t s))"
  by (simp add: downloadVideoFromUrl_def Let_def download_failed_def remove_partial_def
      prog_defs fs_defs same_store_def store_calls_def split: axios_outcome.splits stream_end.splits option.splits)

lemma download_path: "fst (downloadVideoFromUrl e url t s) = Ok p \<Longrightarrow> p = tempFilePath_of e url t"
  by (simp add: downloadVideoFromUrl_def Let_def download_failed_def remove_partial_def
      prog_defs fs_defs split: axios_outcome.splits stream_end.splits option.splits if_splits)

lemma download_settles: "fst (downloadVideoFromUrl e url t s) \<noteq> Never"
  by (simp add: downloadVideoFromUrl_def Let_def download_failed_def remove_partial_def
      prog_defs fs_defs split: axios_outcome.splits stream_end.splits option.splits)

lemma extract_same: "same_store s (snd (extractAudio e v s))"
  by (simp add: extractAudio_def Let_def same_store_def store_calls_def split: ffmpeg_outcome.splits)

lemma extract_path: "fst (extractAudio e v s) = Ok p \<Longrightarrow> p = getFullAudioPath e v ''mp3''"
  by (simp add: extractAudio_def Let_def split: ffmpeg_outcome.splits)

lemma split_same: "same_store s (snd (splitAudio e a t s))"
  by (simp add: splitAudio_def Let_def same_store_def store_calls_def split: option.splits sum.splits)

lemma transcribe_chunk_same: "same_store s (snd (transcribe_chunk e p acc s))"
  by (simp add: transcribe_chunk_def transcriptions_create_def fs_stat_def Let_def prog_defs same_store_def
      store_calls_def split: option.splits sum.splits)

lemma transcribe_chunk_fst: "\<exists>acc'. fst (transcribe_chunk e p acc s) = Ok acc'"
  by (simp add: transcribe_chunk_def transcriptions_create_def fs_stat_def Let_def prog_defs
      split: option.splits sum.splits)

lemma transcribe_loop_same: "same_store s (snd (transcribe_loop e ps acc s))"
proof (induction ps arbitrary: acc s)
  case Nil
  show ?case by (simp add: ret_def)
next
  case (Cons p ps)
  obtain acc' where a: "fst (transcribe_chunk e p acc s) = Ok acc'"
    using transcribe_chunk_fst by blast
  have "same_store s (snd (transcribe_chunk e p acc s))" by (rule transcribe_chunk_same)
  moreover have "same_store (snd (transcribe_chunk e p acc s))
      (snd (transcribe_loop e ps acc' (snd (transcribe_chunk e p acc s))))" by (rule Cons)
  ultimately show ?case using a
    by (simp add: then_do_def case_prod_beta same_store_trans)
qed

lemma transcribeAudio_same: "same_store s (snd (transcribeAudio e ps s))"
  using transcribe_loop_same [of s e ps "[]"]
  by (simp add: transcribeAudio_def prog_defs case_prod_beta split: res.splits)

lemma update_applied:
  "tasks s taskId = Some d \<Longrightarrow> store_error e (set_status u) = None \<Longrightarrow>
   findByIdAndUpdate e taskId u s =
     (Ok (Some (apply_update u (now s) d)),
      s\<lparr>tasks := (tasks s)(taskId \<mapsto> apply_update u (now s) d),
        trace := trace s @ [Update taskId (set_status u) Applied]\<rparr>)"
  by (simp add: findByIdAndUpdate_def)

lemma update_rejected:
  "store_error e (set_status u) = Some m \<Longrightarrow>
   findByIdAndUpdate e taskId u s =
     (Throw m, s\<lparr>trace := trace s @ [Update taskId (set_status u) Rejected]\<rparr>)"
  by (simp add: findByIdAndUpdate_def)

lemma outcome_stop:
  "try_block e taskId url s = (r, s1) \<Longrightarrow> stopped taskId d s k rej s1 \<Longrightarrow>
   paths_known e taskId url s1 \<Longrightarrow> r \<noteq> Ok () \<Longrightarrow> k \<le> 3 \<Longrightarrow> (rej \<longrightarrow> r \<noteq> Never) \<Longrightarrow>
   (rej \<longrightarrow> store_error e (stage_statuses ! k) \<noteq> None) \<Longrightarrow>
   (k = 3 \<and> \<not> rej \<longrightarrow> transcription_fails e (audioChunkPaths s1)) \<Longrightarrow>
   try_outcome e taskId url d s"
  unfolding try_outcome_def by auto

lemma outcome_finished:
  "try_block e taskId url s = (Ok (), s1) \<Longrightarrow> finished taskId d s s1 \<Longrightarrow>
   paths_recorded e taskId url s1 \<Longrightarrow> transcription_gives e (audioChunkPaths s1) t \<Longrightarrow>
   try_outcome e taskId url d s"
  unfolding try_outcome_def by (auto simp: paths_recorded_def paths_known_def)

lemma stopped_same: "stopped taskId d s k rej s1 \<Longrightarrow> same_store s1 s2 \<Longrightarrow> stopped taskId d s k rej s2"
  by (simp add: stopped_def same_store_def)

lemma stopped_local:
  "stopped taskId d s k rej s1 \<Longrightarrow> stopped taskId d s k rej (s1\<lparr>tempVideoPath := v\<rparr>)"
  "stopped taskId d s k rej s1 \<Longrightarrow> stopped taskId d s k rej (s1\<lparr>tempFullPath := v\<rparr>)"
  "stopped taskId d s k rej s1 \<Longrightarrow> stopped taskId d s k rej (s1\<lparr>audioChunkPaths := cs\<rparr>)"
  by (simp_all add: stopped_def store_calls_def)

lemma stopped_reject:
  assumes "stopped taskId d s k False s1" and "k \<le> 3" and "st = stage_statuses ! k"
  shows "stopped taskId d s k True (s1\<lparr>trace := trace s1 @ [Update taskId st Rejected]\<rparr>)"
  using assms by (simp add: stopped_def store_calls_def)

lemma stopped_apply:
  assumes "stopped taskId d s k False s1" and "k < 3" and "st = stage_statuses ! k"
    and "tasks s taskId = Some d"
  shows "\<exists>d1. tasks s1 taskId = Some d1 \<and>
     stopped taskId d s (Suc k) False
       (s1\<lparr>tasks := (tasks s1)(taskId \<mapsto> apply_update (status_only st) (now s1) d1),
           trace := trace s1 @ [Update taskId st Applied]\<rparr>)"
proof -
  from assms(2) have "k = 0 \<or> k = 1 \<or> k = 2" by arith
  then show ?thesis
    using assms(1,3,4)
    by (auto simp: stopped_def store_calls_def stage_statuses_def status_only_def apply_update_simps
        numeral_2_eq_2)
qed

lemma stopped_0: "stopped taskId d s 0 False s"
  by (simp add: stopped_def)

lemma same_store_locals: "same_store s s' \<Longrightarrow> same_locals s s'"
  by (simp add: same_store_def same_locals_def)

lemma update_step:
  assumes "stopped taskId d s k False s1" and "k < 3" and "st = stage_statuses ! k"
    and "tasks s taskId = Some d"
  obtains (rejected) m s2 where
      "findByIdAndUpdate e taskId (status_only st) s1 = (Throw m, s2)"
      "stopped taskId d s k True s2" "same_locals s1 s2" "store_error e st = Some m"
    | (applied) d1 s2 where
      "findByIdAndUpdate e taskId (status_only st) s1 = (Ok (Some d1), s2)"
      "stopped taskId d s (Suc k) False s2" "same_locals s1 s2"
proof (cases "store_error e st")
  case (Some m)
  have "findByIdAndUpdate e taskId (status_only st) s1 =
      (Throw m, s1\<lparr>trace := trace s1 @ [Update taskId st Rejected]\<rparr>)"
    using Some by (simp add: update_rejected status_only_def)
  moreover have "stopped taskId d s k True (s1\<lparr>trace := trace s1 @ [Update taskId st Rejected]\<rparr>)"
    using assms by (simp add: stopped_reject)
  moreover have "same_locals s1 (s1\<lparr>trace := trace s1 @ [Update taskId st Rejected]\<rparr>)"
    by (simp add: same_locals_def)
  moreover note Some
  ultimately show ?thesis by (rule rejected)
next
  case None
  from stopped_apply [OF assms] obtain d1 where d1: "tasks s1 taskId = Some d1"
    and st: "stopped taskId d s (Suc k) False
       (s1\<lparr>tasks := (tasks s1)(taskId \<mapsto> apply_update (status_only st) (now s1) d1),
           trace := trace s1 @ [Update taskId st Applied]\<rparr>)"
    by blast
  have "findByIdAndUpdate e taskId (status_only st) s1 =
      (Ok (Some (apply_update (status_only st) (now s1) d1)),
       s1\<lparr>tasks := (tasks s1)(taskId \<mapsto> apply_update (status_only st) (now s1) d1),
           trace := trace s1 @ [Update taskId st Applied]\<rparr>)"
    using None d1 by (simp add: findByIdAndUpdate_def status_only_def)
  moreover note st
  moreover have "same_locals s1
       (s1\<lparr>tasks := (tasks s1)(taskId \<mapsto> apply_update (status_only st) (now s1) d1),
           trace := trace s1 @ [Update taskId st Applied]\<rparr>)"
    by (simp add: same_locals_def)
  ultimately show ?thesis by (rule applied)
qed

lemma done_step:
  assumes "stopped taskId d s 3 False s1" and "tasks s taskId = Some d"
  obtains (rejected) m s2 where
      "findByIdAndUpdate e taskId (done_update t) s1 = (Throw m, s2)"
      "stopped taskId d s 3 True s2" "same_locals s1 s2" "store_error e DONE = Some m"
    | (applied) d1 s2 where
      "findByIdAndUpdate e taskId (done_update t) s1 = (Ok (Some d1), s2)"
      "finished taskId d s s2" "same_locals s1 s2"
proof (cases "store_error e DONE")
  case (Some m)
  have "findByIdAndUpdate e taskId (done_update t) s1 =
      (Throw m, s1\<lparr>trace := trace s1 @ [Update taskId DONE Rejected]\<rparr>)"
    using Some by (simp add: update_rejected done_update_def)
  moreover have "stopped taskId d s 3 True (s1\<lparr>trace := trace s1 @ [Update taskId DONE Rejected]\<rparr>)"
    using assms by (simp add: stopped_reject stage_statuses_def)
  moreover have "same_locals s1 (s1\<lparr>trace := trace s1 @ [Update taskId DONE Rejected]\<rparr>)"
    by (simp add: same_locals_def)
  moreover note Some
  ultimately show ?thesis by (rule rejected)
next
  case None
  have t1: "tasks s1 taskId = Some (d\<lparr>status := TRANSCRIBING, updatedAt := now s\<rparr>)"
    using assms by (simp add: stopped_def stage_statuses_def)
  have "findByIdAndUpdate e taskId (done_update t) s1 =
      (Ok (Some (apply_update (done_update t) (now s1) (d\<lparr>status := TRANSCRIBING, updatedAt := now s\<rparr>))),
       s1\<lparr>tasks := (tasks s1)(taskId \<mapsto> apply_update (done_update t) (now s1) (d\<lparr>status := TRANSCRIBING, updatedAt := now s\<rparr>)),
           trace := trace s1 @ [Update taskId DONE Applied]\<rparr>)"
    using None t1 by (simp add: findByIdAndUpdate_def done_update_def)
  moreover have "finished taskId d s
       (s1\<lparr>tasks := (tasks s1)(taskId \<mapsto> apply_update (done_update t) (now s1) (d\<lparr>status := TRANSCRIBING, updatedAt := now s\<rparr>)),
           trace := trace s1 @ [Update taskId DONE Applied]\<rparr>)"
    using assms by (simp add: stopped_def finished_def store_calls_def stage_statuses_def
        done_update_def apply_update_simps)
  moreover have "same_locals s1
       (s1\<lparr>tasks := (tasks s1)(taskId \<mapsto> apply_update (done_update t) (now s1) (d\<lparr>status := TRANSCRIBING, updatedAt := now s\<rparr>)),
           trace := trace s1 @ [Update taskId DONE Applied]\<rparr>)"
    by (simp add: same_locals_def)
  ultimately show ?thesis by (rule applied)
qed

text \<open>The case analysis of the try block, one step of the source after the other.\<close>

lemma try_block_outcome:
  assumes d: "tasks s taskId = Some d"
    and l0: "tempVideoPath s = None" "tempFullPath s = None"
  shows "try_outcome e taskId url d s"
proof -
  have p0: "stopped taskId d s 0 False s" by (rule stopped_0)
  have q0: "DOWNLOADING = stage_statuses ! 0" and k0: "(0::nat) < 3"
    by (simp_all add: stage_statuses_def)
  from p0 k0 q0 d show ?thesis
  proof (cases rule: update_step [where e = e])
    case (rejected m sa)
    have tb: "try_block e taskId url s = (Throw m, sa)"
      by (simp add: try_block_def then_do_def rejected(1))
    have kn: "paths_known e taskId url sa"
      using rejected(3) l0 by (simp add: paths_known_def same_locals_def)
    show ?thesis
          by (rule outcome_stop [OF tb rejected(2) kn]) (simp_all add: rejected(4) stage_statuses_def)
  next
    case (applied d1 sa)
    obtain r2 sb where dl: "downloadVideoFromUrl e url taskId sa = (r2, sb)" by force
    have fb: "same_store sa sb" using download_same [of sa e url taskId] dl by simp
    with applied(2) have pb: "stopped taskId d s 1 False sb" by (simp add: stopped_same)
    have lb: "tempVideoPath sb = None" "tempFullPath sb = None"
      using fb applied(3) l0 by (simp_all add: same_store_def same_locals_def)
    then have kb: "paths_known e taskId url sb" by (simp add: paths_known_def)
    have nb: "r2 \<noteq> Never" using download_settles [of e url taskId sa] dl by simp
    show ?thesis
    proof (cases r2)
      case Never
      with nb show ?thesis by simp
    next
      case (Throw m)
      have tb: "try_block e taskId url s = (Throw m, sb)"
        by (simp add: try_block_def then_do_def applied(1) dl Throw)
      show ?thesis by (rule outcome_stop [OF tb pb kb]) simp_all
    next
      case (Ok videoPath)
      have vp: "videoPath = tempFilePath_of e url taskId"
        using download_path [of e url taskId sa videoPath] dl Ok by simp
      have pc: "stopped taskId d s 1 False (sb\<lparr>tempVideoPath := Some videoPath\<rparr>)"
        using pb by (rule stopped_local)
      have q1: "EXTRACTING_AUDIO = stage_statuses ! 1" and k1: "(1::nat) < 3"
        by (simp_all add: stage_statuses_def)
      from pc k1 q1 d show ?thesis
      proof (cases rule: update_step [where e = e])
        case (rejected m sd)
        have tb: "try_block e taskId url s = (Throw m, sd)"
          by (simp add: try_block_def then_do_def applied(1) dl Ok rejected(1))
        have kn: "paths_known e taskId url sd"
          using rejected(3) lb vp by (simp add: paths_known_def same_locals_def)
        show ?thesis
          by (rule outcome_stop [OF tb rejected(2) kn]) (simp_all add: rejected(4) stage_statuses_def)
      next
        case u2: (applied d2 sd)
        obtain r3 se where ex: "extractAudio e videoPath sd = (r3, se)" by force
        have fe: "same_store sd se" using extract_same [of sd e videoPath] ex by simp
        with u2(2) have pe: "stopped taskId d s 2 False se" by (simp add: stopped_same numeral_2_eq_2)
        have le: "tempVideoPath se = Some videoPath" "tempFullPath se = None"
          using fe u2(3) lb by (simp_all add: same_store_def same_locals_def)
        then have ke: "paths_known e taskId url se" using vp by (simp add: paths_known_def)
        show ?thesis
        proof (cases r3)
          case Never
          have tb: "try_block e taskId url s = (Never, se)"
            by (simp add: try_block_def then_do_def applied(1) dl Ok u2(1) ex Never)
          show ?thesis by (rule outcome_stop [OF tb pe ke]) simp_all
        next
          case (Throw m)
          have tb: "try_block e taskId url s = (Throw m, se)"
            by (simp add: try_block_def then_do_def applied(1) dl Ok u2(1) ex Throw)
          show ?thesis by (rule outcome_stop [OF tb pe ke]) simp_all
        next
          case xo: (Ok fullPath)
          have fp: "fullPath = audioPath_of e url taskId"
            using extract_path [of e videoPath sd fullPath] ex xo vp by (simp add: audioPath_of_def)
          have pf: "stopped taskId d s 2 False (se\<lparr>tempFullPath := Some fullPath\<rparr>)"
            using pe by (rule stopped_local)
          obtain r4 sg where sp: "splitAudio e fullPath taskId (se\<lparr>tempFullPath := Some fullPath\<rparr>) = (r4, sg)"
            by force
          have fg: "same_store (se\<lparr>tempFullPath := Some fullPath\<rparr>) sg"
            using split_same [of "se\<lparr>tempFullPath := Some fullPath\<rparr>" e fullPath taskId] sp by simp
          with pf have pg: "stopped taskId d s 2 False sg" by (rule stopped_same)
          have lg: "paths_recorded e taskId url sg"
            using fg le vp fp by (simp add: same_store_def paths_recorded_def)
          then have kg: "paths_known e taskId url sg" by (simp add: paths_recorded_def paths_known_def)
          show ?thesis
          proof (cases r4)
            case Never
            have tb: "try_block e taskId url s = (Never, sg)"
              by (simp add: try_block_def then_do_def applied(1) dl Ok u2(1) ex xo sp Never)
            show ?thesis by (rule outcome_stop [OF tb pg kg]) simp_all
          next
            case (Throw m)
            have tb: "try_block e taskId url s = (Throw m, sg)"
              by (simp add: try_block_def then_do_def applied(1) dl Ok u2(1) ex xo sp Throw)
            show ?thesis by (rule outcome_stop [OF tb pg kg]) simp_all
          next
            case so: (Ok chunkPaths)
            have ph: "stopped taskId d s 2 False (sg\<lparr>audioChunkPaths := chunkPaths\<rparr>)"
              using pg by (rule stopped_local)
            have lh: "paths_recorded e taskId url (sg\<lparr>audioChunkPaths := chunkPaths\<rparr>)"
              using lg by (simp add: paths_recorded_def)
            have q2: "TRANSCRIBING = stage_statuses ! 2" and k2: "(2::nat) < 3"
              by (simp_all add: stage_statuses_def)
            from ph k2 q2 d show ?thesis
            proof (cases rule: update_step [where e = e])
              case (rejected m si)
              have tb: "try_block e taskId url s = (Throw m, si)"
                by (simp add: try_block_def then_do_def applied(1) dl Ok u2(1) ex xo sp so rejected(1))
              have kn: "paths_known e taskId url si"
                using rejected(3) lh by (simp add: paths_known_def paths_recorded_def same_locals_def)
              show ?thesis
          by (rule outcome_stop [OF tb rejected(2) kn]) (simp_all add: rejected(4) stage_statuses_def)
            next
              case u3: (applied d3 si)
              obtain r5 sj where tr: "transcribeAudio e chunkPaths si = (r5, sj)" by force
              have fj: "same_store si sj" using transcribeAudio_same [of si e chunkPaths] tr by simp
              with u3(2) have pj: "stopped taskId d s 3 False sj"
                by (simp add: stopped_same numeral_3_eq_3 numeral_2_eq_2)
              have lj: "paths_recorded e taskId url sj" "audioChunkPaths sj = chunkPaths"
                using fj u3(3) lh by (simp_all add: same_store_def same_locals_def paths_recorded_def)
              then have kj: "paths_known e taskId url sj" by (simp add: paths_recorded_def paths_known_def)
              show ?thesis
              proof (cases r5)
                case Never
                have tb: "try_block e taskId url s = (Never, sj)"
                  by (simp add: try_block_def then_do_def applied(1) dl Ok u2(1) ex xo sp so u3(1) tr Never)
                have tf: "transcription_fails e (audioChunkPaths sj)"
                  unfolding transcription_fails_def using tr Never lj(2) by (intro exI [of _ si]) simp
                show ?thesis by (rule outcome_stop [OF tb pj kj]) (simp_all add: tf)
              next
                case (Throw m)
                have tb: "try_block e taskId url s = (Throw m, sj)"
                  by (simp add: try_block_def then_do_def applied(1) dl Ok u2(1) ex xo sp so u3(1) tr Throw)
                have tf: "transcription_fails e (audioChunkPaths sj)"
                  unfolding transcription_fails_def using tr Throw lj(2) by (intro exI [of _ si]) simp
                show ?thesis by (rule outcome_stop [OF tb pj kj]) (simp_all add: tf)
              next
                case to: (Ok t)
                from pj d show ?thesis
                proof (cases rule: done_step [where e = e and t = t])
                  case (rejected m sk)
                  have tb: "try_block e taskId url s = (Throw m, sk)"
                    by (simp add: try_block_def then_do_def applied(1) dl Ok u2(1) ex xo sp so u3(1) tr to
                        transcript_guard_def ret_def rejected(1))
                  have kn: "paths_known e taskId url sk"
                    using rejected(3) lj by (simp add: paths_known_def paths_recorded_def same_locals_def)
                  show ?thesis
          by (rule outcome_stop [OF tb rejected(2) kn]) (simp_all add: rejected(4) stage_statuses_def)
                next
                  case u4: (applied d4 sk)
                  have tb: "try_block e taskId url s = (Ok (), sk)"
                    by (simp add: try_block_def then_do_def applied(1) dl Ok u2(1) ex xo sp so u3(1) tr to
                        transcript_guard_def ret_def u4(1))
                  have pr: "paths_recorded e taskId url sk"
                    using u4(3) lj by (simp add: paths_recorded_def same_locals_def)
                  have tg: "transcription_gives e (audioChunkPaths sk) t"
                    unfolding transcription_gives_def using tr to lj(2) u4(3)
                    by (intro exI [of _ si]) (simp add: same_locals_def)
                  show ?thesis by (rule outcome_finished [OF tb u4(2) pr tg])
                qed
              qed
            qed
          qed
        qed
      qed
    qed
  qed
qed

lemma catch_applied:
  "tasks s1 taskId = Some d1 \<Longrightarrow> store_error e FAILED = None \<Longrightarrow>
   catch_block e taskId m s1 =
     (Ok (), s1\<lparr>tasks := (tasks s1)(taskId \<mapsto>
                 d1\<lparr>status := FAILED, errorMessage := Some (''Task failed: '' @ m), updatedAt := now s1\<rparr>),
               trace := trace s1 @ [ConsoleError (''[Task:'' @ taskId @ ''] '' @ ''Task failed: '' @ m),
                                   Update taskId FAILED Applied]\<rparr>)"
  by (simp add: catch_block_def Let_def prog_defs findByIdAndUpdate_def failed_update_def apply_update_simps)

lemma catch_rejected:
  "store_error e FAILED = Some dbm \<Longrightarrow>
   catch_block e taskId m s1 =
     (Ok (), s1\<lparr>trace := trace s1 @ [ConsoleError (''[Task:'' @ taskId @ ''] '' @ ''Task failed: '' @ m),
                                   Update taskId FAILED Rejected,
                                   ConsoleError (''[Task:'' @ taskId @ ''] CRITICAL: Failed to update task status to FAILED: '' @ dbm)]\<rparr>)"
  by (simp add: catch_block_def Let_def prog_defs findByIdAndUpdate_def failed_update_def)

lemma finally_fst: "fst (finally_block e taskId s) = Ok ()"
  using cleanupFiles_fst [of e "[tempVideoPath s, tempFullPath s]" s] cleanupChunks_fst [of e taskId]
  by (simp add: finally_block_def then_do_def case_prod_beta)

lemma finally_same: "same_store s (snd (finally_block e taskId s))"
  using cleanupFiles_fst [of e "[tempVideoPath s, tempFullPath s]" s]
    cleanupFiles_same [of s e "[tempVideoPath s, tempFullPath s]"]
    cleanupChunks_same [of "snd (cleanupFiles e [tempVideoPath s, tempFullPath s] s)" e taskId]
  by (simp add: finally_block_def then_do_def case_prod_beta same_store_trans)

lemma process_eq:
  "fst (try_and_catch e taskId url s) \<noteq> Never \<Longrightarrow>
   processVideoTask e taskId url s =
     (fst (try_and_catch e taskId url s), snd (finally_block e taskId (snd (try_and_catch e taskId url s))))"
  using finally_fst [of e taskId "snd (try_and_catch e taskId url s)"]
  by (simp add: processVideoTask_def try_finally_def case_prod_beta split: res.splits)

lemma process_never:
  "fst (try_and_catch e taskId url s) = Never \<Longrightarrow>
   processVideoTask e taskId url s = (Never, snd (try_and_catch e taskId url s))"
  by (simp add: processVideoTask_def try_finally_def case_prod_beta split: res.splits)

lemma entry_stopped: "stopped taskId d (entry s) k rej s1 \<longleftrightarrow> stopped taskId d s k rej s1"
  by (simp add: stopped_def entry_def store_calls_def)

lemma entry_finished: "finished taskId d (entry s) s1 \<longleftrightarrow> finished taskId d s s1"
  by (simp add: finished_def entry_def store_calls_def)

lemma stopped_task:
  "stopped taskId d s k rej s1 \<Longrightarrow> tasks s taskId = Some d \<Longrightarrow>
   tasks s1 taskId = Some (stamp d (now s) k) \<and> tasks s1 = (tasks s)(taskId \<mapsto> stamp d (now s) k)"
  by (auto simp: stopped_def stamp_def)

lemma catch_locals: "same_locals s1 (snd (catch_block e taskId m s1))"
  by (simp add: catch_block_def Let_def prog_defs findByIdAndUpdate_def same_locals_def
      split: option.splits)

lemma catch_outcome:
  assumes "stopped taskId d s k rej s1" and "tasks s taskId = Some d"
  shows "fst (catch_block e taskId m s1) = Ok () \<and>
         failed_at taskId d s k rej m (store_error e FAILED = None) (snd (catch_block e taskId m s1))"
proof (cases "store_error e FAILED")
  case None
  from stopped_task [OF assms] have d1: "tasks s1 taskId = Some (stamp d (now s) k)" by simp
  show ?thesis
    using assms None catch_applied [OF d1 None, of m]
    by (simp add: failed_at_def stopped_def store_calls_def stamp_def)
next
  case (Some dbm)
  show ?thesis
    using assms Some catch_rejected [OF Some, of taskId m s1]
    by (auto simp: failed_at_def stopped_def store_calls_def stamp_def)
qed

lemma failed_at_same:
  "failed_at taskId d s k rej m ap s1 \<Longrightarrow> same_store s1 s2 \<Longrightarrow> failed_at taskId d s k rej m ap s2"
  by (simp add: failed_at_def same_store_def)

lemma finished_same: "finished taskId d s s1 \<Longrightarrow> same_store s1 s2 \<Longrightarrow> finished taskId d s s2"
  by (simp add: finished_def same_store_def)

lemma paths_known_locals: "paths_known e taskId url s1 \<Longrightarrow> same_locals s1 s2 \<Longrightarrow> paths_known e taskId url s2"
  by (simp add: paths_known_def same_locals_def)

lemma paths_recorded_locals:
  "paths_recorded e taskId url s1 \<Longrightarrow> same_locals s1 s2 \<Longrightarrow> paths_recorded e taskId url s2"
  by (simp add: paths_recorded_def same_locals_def)

text \<open>
  The runs of the routine on a task of the store: the try block ran to its end; or a stage
  never settled, and neither the catch block nor the finally block was reached; or an
  exception was caught and the FAILED write issued.
\<close>

lemma process_cases:
  assumes d: "tasks s taskId = Some d"
  obtains (completed) t s3 where
      "processVideoTask e taskId url s = (Ok (), s3)"
      "fst (try_block e taskId url (entry s)) = Ok ()"
      "finished taskId d s s3"
      "paths_recorded e taskId url s3"
      "transcription_gives e (audioChunkPaths s3) t"
    | (never) k s3 where
      "processVideoTask e taskId url s = (Never, s3)"
      "fst (try_block e taskId url (entry s)) = Never"
      "k \<le> 3" "stopped taskId d s k False s3"
      "k = 3 \<longrightarrow> transcription_fails e (audioChunkPaths s3)"
    | (failed) k rej m s3 where
      "processVideoTask e taskId url s = (Ok (), s3)"
      "fst (try_block e taskId url (entry s)) = Throw m"
      "k \<le> 3" "failed_at taskId d s k rej m (store_error e FAILED = None) s3"
      "paths_known e taskId url s3"
      "rej \<longrightarrow> store_error e (stage_statuses ! k) \<noteq> None"
      "k = 3 \<and> \<not> rej \<longrightarrow> transcription_fails e (audioChunkPaths s3)"
proof -
  have de: "tasks (entry s) taskId = Some d" "tempVideoPath (entry s) = None" "tempFullPath (entry s) = None"
    using d by (simp_all add: entry_def)
  obtain r s1 where tb: "try_block e taskId url (entry s) = (r, s1)" by force
  from try_block_outcome [OF de, of e url] tb
  have known: "paths_known e taskId url s1" by (simp add: try_outcome_def)
  from try_block_outcome [OF de, of e url] tb
  consider (a) t where "r = Ok ()" "finished taskId d s s1" "paths_recorded e taskId url s1"
      "transcription_gives e (audioChunkPaths s1) t"
    | (b) k rej where "r \<noteq> Ok ()" "k \<le> 3" "rej \<longrightarrow> r \<noteq> Never" "stopped taskId d s k rej s1"
      "k = 3 \<and> \<not> rej \<longrightarrow> transcription_fails e (audioChunkPaths s1)"
      "rej \<longrightarrow> store_error e (stage_statuses ! k) \<noteq> None"
    by (auto simp: try_outcome_def entry_stopped entry_finished)
  then show thesis
  proof cases
    case a
    have tc: "try_and_catch e taskId url s = (Ok (), s1)"
      using tb a(1) by (simp add: try_and_catch_def try_catch_def)
    have fs: "same_store s1 (snd (finally_block e taskId s1))" by (rule finally_same)
    have "processVideoTask e taskId url s = (Ok (), snd (finally_block e taskId s1))"
      using process_eq [of e taskId url s] tc by simp
    moreover have "fst (try_block e taskId url (entry s)) = Ok ()" using tb a(1) by simp
    moreover have "finished taskId d s (snd (finally_block e taskId s1))"
      using a(2) fs by (rule finished_same)
    moreover have "paths_recorded e taskId url (snd (finally_block e taskId s1))"
      using a(3) fs by (simp add: paths_recorded_def same_store_def)
    moreover have "transcription_gives e (audioChunkPaths (snd (finally_block e taskId s1))) t"
      using a(4) fs by (simp add: same_store_def)
    ultimately show ?thesis by (rule completed)
  next
    case b
    show ?thesis
    proof (cases r)
      case (Ok u)
      with b(1) show ?thesis by simp
    next
      case Never
      have tc: "try_and_catch e taskId url s = (Never, s1)"
        using tb Never by (simp add: try_and_catch_def try_catch_def)
      have "processVideoTask e taskId url s = (Never, s1)"
        using process_never [of e taskId url s] tc by simp
      moreover have "fst (try_block e taskId url (entry s)) = Never" using tb Never by simp
      moreover note b(2)
      moreover have "stopped taskId d s k False s1" using b(3,4) Never by (cases rej) simp_all
      moreover have "k = 3 \<longrightarrow> transcription_fails e (audioChunkPaths s1)"
        using b(3,5) Never by (cases rej) simp_all
      ultimately show ?thesis by (rule never)
    next
      case (Throw m)
      have tc: "try_and_catch e taskId url s = catch_block e taskId m s1"
        using tb Throw by (simp add: try_and_catch_def try_catch_def)
      from catch_outcome [OF b(4) d, of e m]
      have c1: "fst (catch_block e taskId m s1) = Ok ()"
        and c2: "failed_at taskId d s k rej m (store_error e FAILED = None) (snd (catch_block e taskId m s1))"
        by simp_all
      have fs: "same_store (snd (catch_block e taskId m s1))
          (snd (finally_block e taskId (snd (catch_block e taskId m s1))))" by (rule finally_same)
      have ls: "same_locals s1 (snd (finally_block e taskId (snd (catch_block e taskId m s1))))"
        using catch_locals [of s1 e taskId m] fs by (simp add: same_locals_def same_store_def)
      have "processVideoTask e taskId url s =
          (Ok (), snd (finally_block e taskId (snd (catch_block e taskId m s1))))"
        using process_eq [of e taskId url s] tc c1 by simp
      moreover have "fst (try_block e taskId url (entry s)) = Throw m" using tb Throw by simp
      moreover note b(2)
      moreover have "failed_at taskId d s k rej m (store_error e FAILED = None)
          (snd (finally_block e taskId (snd (catch_block e taskId m s1))))"
        using c2 fs by (rule failed_at_same)
      moreover have "paths_known e taskId url (snd (finally_block e taskId (snd (catch_block e taskId m s1))))"
        using known ls by (rule paths_known_locals)
      moreover note b(6)
      moreover have "k = 3 \<and> \<not> rej \<longrightarrow>
          transcription_fails e (audioChunkPaths (snd (finally_block e taskId (snd (catch_block e taskId m s1)))))"
        using b(5) ls by (simp add: same_locals_def)
      ultimately show ?thesis by (rule failed)
    qed
  qed
qed

lemma k_cases: "k \<le> 3 \<Longrightarrow> k = 0 \<or> k = 1 \<or> k = 2 \<or> k = (3::nat)"
  by arith

lemma process_store:
  "fst (try_and_catch e taskId url s) \<noteq> Never \<Longrightarrow>
   same_store (snd (try_and_catch e taskId url s)) (snd (processVideoTask e taskId url s))"
  using finally_same [of "snd (try_and_catch e taskId url s)" e taskId]
  by (simp add: process_eq)

text \<open>
  A run whose try block reaches its end leaves the document of the task with status DONE
  and \<^verbatim>\<open>errorMessage\<close> \<^verbatim>\<open>null\<close>, and otherwise as it was. No run writes the path \<^verbatim>\<open>text\<close>.
\<close>

lemma completed_run_document:
  assumes "tasks s taskId = Some d" and "fst (try_block e taskId url (entry s)) = Ok ()"
  shows "tasks (snd (processVideoTask e taskId url s)) taskId =
           Some (d\<lparr>status := DONE, errorMessage := None, updatedAt := now s\<rparr>)"
  using assms(1)
proof (cases rule: process_cases [where e = e and url = url])
  case (completed t s3)
  then show ?thesis by (simp add: finished_def)
next
  case (never k s3)
  then show ?thesis using assms(2) by simp
next
  case (failed k rej m s3)
  then show ?thesis using assms(2) by simp
qed

lemma run_keeps_text:
  assumes "tasks s taskId = Some d"
  shows "\<exists>d'. tasks (snd (processVideoTask e taskId url s)) taskId = Some d' \<and>
              task_text d' = task_text d"
  using assms
proof (cases rule: process_cases [where e = e and url = url])
  case (completed t s3)
  then show ?thesis by (simp add: finished_def)
next
  case (never k s3)
  then show ?thesis using assms by (auto simp: stopped_def)
next
  case (failed k rej m s3)
  then show ?thesis using assms by (auto simp: failed_at_def stamp_def)
qed

subsection \<open>The result of the transcription stage\<close>

lemma transcribe_chunk_result:
  "fst (transcribe_chunk e p acc s) = Ok (acc @ (if skipped e p then [] else spaced (chunk_text e p)))"
  by (simp add: transcribe_chunk_def transcriptions_create_def fs_stat_def Let_def prog_defs
      skipped_def chunk_text_def spaced_def split: option.splits sum.splits)

lemma transcribe_loop_result:
  "fst (transcribe_loop e ps acc s) = Ok (acc @ joined e ps)"
proof (induction ps arbitrary: acc s)
  case Nil
  show ?case by (simp add: ret_def joined_def)
next
  case (Cons p ps)
  show ?case
    using transcribe_chunk_result [of e p acc s]
      Cons [of "acc @ (if skipped e p then [] else spaced (chunk_text e p))" "snd (transcribe_chunk e p acc s)"]
    by (simp add: then_do_def case_prod_beta joined_def)
qed

lemma transcribeAudio_result:
  "fst (transcribeAudio e ps s) =
     (if key_missing e then Throw ''Transcription failed: Groq API Key is not configured.''
      else Ok (trim (joined e ps)))"
  using transcribe_loop_result [of e ps "[]" s]
  by (simp add: transcribeAudio_def prog_defs case_prod_beta)

lemma joined_all_skipped: "\<forall>p\<in>set ps. skipped e p \<Longrightarrow> joined e ps = []"
  by (simp add: joined_def)

subsection \<open>Runs in the concrete environment\<close>

lemmas run_defs = try_block_def then_do_def try_catch_def ret_def raise_def emit_def console_error_def
  findByIdAndUpdate_def status_only_def apply_update_simps done_update_def failed_update_def
  downloadVideoFromUrl_def download_failed_def remove_partial_def tempFilePath_of_def download_suffix_def
  download_options_def path_join_def fs_remove_def fs_pathExists_def
  extractAudio_def getFullAudioPath_def splitAudio_def chunkDir_of_def is_chunk_name_def
  transcribeAudio_def key_missing_def transcribe_chunk_def transcriptions_create_def transcription_options_def
  fs_stat_def size_limit_def transcript_guard_def entry_def new_Task_def

lemmas eval_defs = run_defs Let_def trim_eval env0_def config0_def state1_def state0_def task1_def
  try_and_catch_def catch_block_def suffix_to_prefix

lemma env0_run:
  "fst (try_and_catch env0 ''t1'' ''http://a.test/v.mp4'' state1) = Ok ()"
  "tasks (snd (try_and_catch env0 ''t1'' ''http://a.test/v.mp4'' state1)) ''t1'' =
     Some \<lparr>task_id = ''t1'', task_url = Some ''http://a.test/v.mp4'', status = DONE,
           task_text = None, errorMessage = None, createdAt = 7, updatedAt = 7\<rparr>"
  "store_calls (snd (try_and_catch env0 ''t1'' ''http://a.test/v.mp4'' state1)) =
     [Update ''t1'' DOWNLOADING Applied, Update ''t1'' EXTRACTING_AUDIO Applied,
      Update ''t1'' TRANSCRIBING Applied, Update ''t1'' DONE Applied]"
  by (simp_all add: eval_defs store_calls_def)

lemma env_empty_chunks_run:
  "fst (try_and_catch env_empty_chunks ''t1'' ''http://a.test/v.mp4'' state1) = Ok ()"
  "store_calls (snd (try_and_catch env_empty_chunks ''t1'' ''http://a.test/v.mp4'' state1)) =
     [Update ''t1'' DOWNLOADING Applied, Update ''t1'' EXTRACTING_AUDIO Applied,
      Update ''t1'' TRANSCRIBING Applied, Update ''t1'' DONE Applied]"
  by (simp_all add: eval_defs store_calls_def env_empty_chunks_def)

subsection \<open>The cleanup routines\<close>

lemma catch_fst: "fst (catch_block e taskId m s) = Ok ()"
  by (simp add: catch_block_def Let_def prog_defs findByIdAndUpdate_def split: option.splits)

lemma try_and_catch_no_throw: "fst (try_and_catch e taskId url s) \<noteq> Throw m"
  using catch_fst [of e taskId _ "snd (try_block e taskId url (entry s))"]
  by (simp add: try_and_catch_def try_catch_def case_prod_beta split: res.splits)

lemma process_no_throw: "fst (processVideoTask e taskId url s) \<noteq> Throw m"
proof (cases "fst (try_and_catch e taskId url s) = Never")
  case True
  then show ?thesis by (simp add: process_never)
next
  case False
  then show ?thesis using try_and_catch_no_throw [of e taskId url s m] by (simp add: process_eq)
qed

lemma cleanup_path_missing:
  "p \<notin> files s \<Longrightarrow> exists_error e p = None \<Longrightarrow> cleanup_path e p s = (Ok (), s)"
  by (simp add: cleanup_path_def prog_defs fs_defs)

lemma cleanupFiles_missing:
  "\<forall>p. Some p \<in> set ps \<longrightarrow> p \<notin> files s \<and> exists_error e p = None \<Longrightarrow> cleanupFiles e ps s = (Ok (), s)"
proof (induction ps)
  case Nil
  show ?case by (simp add: ret_def)
next
  case (Cons fp ps)
  then show ?case
    by (cases fp) (simp_all add: then_do_def ret_def cleanup_path_missing)
qed

lemma cleanupChunks_missing:
  "chunkDir_of e taskId \<notin> files s \<Longrightarrow> exists_error e (chunkDir_of e taskId) = None \<Longrightarrow>
   cleanupChunks e taskId s = (Ok (), s)"
  by (simp add: cleanupChunks_def Let_def prog_defs fs_defs)

lemma cleanup_path_logged:
  assumes "exists_error e p = Some m \<or> (exists_error e p = None \<and> p \<in> files s \<and> remove_error e p = Some m)"
  shows "fst (cleanup_path e p s) = Ok ()"
    and "trace (snd (cleanup_path e p s)) =
           trace s @ [ConsoleError (''Error cleaning up file '' @ p @ '': '' @ m)]"
    and "same_store s (snd (cleanup_path e p s))"
    and "files (snd (cleanup_path e p s)) \<subseteq> files s"
    and "p \<in> files s \<Longrightarrow> p \<in> files (snd (cleanup_path e p s))"
  using assms by (auto simp: cleanup_path_def prog_defs fs_defs same_store_def store_calls_def)

lemma cleanupChunks_logged:
  assumes "exists_error e (chunkDir_of e taskId) = Some m \<or>
   (exists_error e (chunkDir_of e taskId) = None \<and> chunkDir_of e taskId \<in> files s \<and>
    remove_error e (chunkDir_of e taskId) = Some m)"
  shows "fst (cleanupChunks e taskId s) = Ok ()"
    and "trace (snd (cleanupChunks e taskId s)) =
           trace s @ [ConsoleError (''Error cleaning up chunk directory '' @ chunkDir_of e taskId @ '': '' @ m)]"
    and "same_store s (snd (cleanupChunks e taskId s))"
    and "files (snd (cleanupChunks e taskId s)) \<subseteq> files s"
    and "chunkDir_of e taskId \<in> files s \<Longrightarrow> chunkDir_of e taskId \<in> files (snd (cleanupChunks e taskId s))"
  using assms by (auto simp: cleanupChunks_def Let_def prog_defs fs_defs same_store_def store_calls_def)

lemma cleanup_path_subset: "files (snd (cleanup_path e p s)) \<subseteq> files s"
  by (auto simp: cleanup_path_def prog_defs fs_defs split: option.splits)

lemma cleanup_path_gone:
  "exists_error e p = None \<Longrightarrow> remove_error e p = None \<Longrightarrow> p \<notin> files (snd (cleanup_path e p s))"
  by (auto simp: cleanup_path_def prog_defs fs_defs under_def)

lemma cleanupFiles_subset: "files (snd (cleanupFiles e ps s)) \<subseteq> files s"
proof (induction ps arbitrary: s)
  case Nil
  show ?case by (simp add: ret_def)
next
  case (Cons fp ps)
  show ?case
  proof (cases "fp = None \<or> fp = Some []")
    case True
    then show ?thesis using Cons [of s] by (auto simp: then_do_def ret_def)
  next
    case False
    then obtain p where p: "fp = Some p" "p \<noteq> []" by (cases fp) auto
    have "files (snd (cleanupFiles e ps (snd (cleanup_path e p s)))) \<subseteq> files (snd (cleanup_path e p s))"
      by (rule Cons)
    also have "\<dots> \<subseteq> files s" by (rule cleanup_path_subset)
    finally show ?thesis using p cleanup_path_fst [of e p s]
      by (simp add: then_do_def case_prod_beta)
  qed
qed

lemma cleanupChunks_subset: "files (snd (cleanupChunks e taskId s)) \<subseteq> files s"
  by (auto simp: cleanupChunks_def Let_def prog_defs fs_defs split: option.splits)

lemma cleanupChunks_gone:
  "exists_error e (chunkDir_of e taskId) = None \<Longrightarrow> remove_error e (chunkDir_of e taskId) = None \<Longrightarrow>
   chunkDir_of e taskId \<notin> files (snd (cleanupChunks e taskId s)) \<and>
   (chunkDir_of e taskId \<in> files s \<longrightarrow>
      (\<forall>q \<in> files (snd (cleanupChunks e taskId s)). \<not> under (chunkDir_of e taskId) q))"
  by (auto simp: cleanupChunks_def Let_def prog_defs fs_defs under_def)

lemma cleanupFiles_gone:
  assumes "Some p \<in> set ps" and "p \<noteq> []" and "exists_error e p = None" and "remove_error e p = None"
  shows "p \<notin> files (snd (cleanupFiles e ps s))"
  using assms(1)
proof (induction ps arbitrary: s)
  case Nil
  then show ?case by simp
next
  case (Cons fp ps)
  show ?case
  proof (cases "fp = Some p")
    case True
    have "p \<notin> files (snd (cleanup_path e p s))" using assms(3,4) by (rule cleanup_path_gone)
    then have "p \<notin> files (snd (cleanupFiles e ps (snd (cleanup_path e p s))))"
      using cleanupFiles_subset [of e ps "snd (cleanup_path e p s)"] by blast
    then show ?thesis using True assms(2) cleanup_path_fst [of e p s]
      by (simp add: then_do_def case_prod_beta)
  next
    case False
    with Cons.prems have in_ps: "Some p \<in> set ps" by simp
    show ?thesis
    proof (cases "fp = None \<or> fp = Some []")
      case True
      then show ?thesis using Cons.IH [OF in_ps, of s] by (auto simp: then_do_def ret_def)
    next
      case False
      then obtain p' where p': "fp = Some p'" "p' \<noteq> []" by (cases fp) auto
      show ?thesis using Cons.IH [OF in_ps, of "snd (cleanup_path e p' s)"] p' cleanup_path_fst [of e p' s]
        by (simp add: then_do_def case_prod_beta)
    qed
  qed
qed

lemma finally_files:
  "files (snd (finally_block e taskId s)) \<subseteq> files s"
  using cleanupFiles_subset [of e "[tempVideoPath s, tempFullPath s]" s]
    cleanupChunks_subset [of e taskId "snd (cleanupFiles e [tempVideoPath s, tempFullPath s] s)"]
    cleanupFiles_fst [of e "[tempVideoPath s, tempFullPath s]" s]
  by (auto simp: finally_block_def then_do_def case_prod_beta)

lemma finally_gone:
  assumes "tempVideoPath s = Some p \<or> tempFullPath s = Some p" and "p \<noteq> []"
    and "exists_error e p = None" and "remove_error e p = None"
  shows "p \<notin> files (snd (finally_block e taskId s))"
proof -
  have "Some p \<in> set [tempVideoPath s, tempFullPath s]" using assms(1) by auto
  from cleanupFiles_gone [OF this assms(2,3,4), of s]
  have "p \<notin> files (snd (cleanupFiles e [tempVideoPath s, tempFullPath s] s))" .
  then show ?thesis
    using cleanupChunks_subset [of e taskId "snd (cleanupFiles e [tempVideoPath s, tempFullPath s] s)"]
      cleanupFiles_fst [of e "[tempVideoPath s, tempFullPath s]" s]
    by (auto simp: finally_block_def then_do_def case_prod_beta)
qed

lemma finally_chunks_gone:
  assumes "exists_error e (chunkDir_of e taskId) = None" and "remove_error e (chunkDir_of e taskId) = None"
  shows "chunkDir_of e taskId \<notin> files (snd (finally_block e taskId s))"
  using cleanupChunks_gone [OF assms, of "snd (cleanupFiles e [tempVideoPath s, tempFullPath s] s)"]
    cleanupFiles_fst [of e "[tempVideoPath s, tempFullPath s]" s]
  by (simp add: finally_block_def then_do_def case_prod_beta)

lemma path_join_nonempty: "path_join a b \<noteq> []"
  by (simp add: path_join_def)

lemma cleanup_path_kept:
  "p \<in> files s \<Longrightarrow> (remove_error e q \<noteq> None \<and> p = q) \<or> \<not> under q p \<Longrightarrow>
   p \<in> files (snd (cleanup_path e q s))"
  by (auto simp: cleanup_path_def prog_defs fs_defs split: option.splits)

lemma cleanupChunks_kept:
  "p \<in> files s \<Longrightarrow>
   (remove_error e (chunkDir_of e taskId) \<noteq> None \<and> p = chunkDir_of e taskId) \<or>
     \<not> under (chunkDir_of e taskId) p \<Longrightarrow>
   p \<in> files (snd (cleanupChunks e taskId s))"
  by (auto simp: cleanupChunks_def Let_def prog_defs fs_defs split: option.splits)

lemma cleanupFiles_kept:
  "p \<in> files s \<Longrightarrow> \<forall>q. Some q \<in> set ps \<longrightarrow> (remove_error e q \<noteq> None \<and> p = q) \<or> \<not> under q p \<Longrightarrow>
   p \<in> files (snd (cleanupFiles e ps s))"
proof (induction ps arbitrary: s)
  case Nil
  then show ?case by (simp add: ret_def)
next
  case (Cons fp ps)
  show ?case
  proof (cases "fp = None \<or> fp = Some []")
    case True
    then show ?thesis using Cons by (auto simp: then_do_def ret_def)
  next
    case False
    then obtain q where q: "fp = Some q" "q \<noteq> []" by (cases fp) auto
    have "p \<in> files (snd (cleanup_path e q s))"
      using Cons.prems q by (intro cleanup_path_kept) auto
    then have "p \<in> files (snd (cleanupFiles e ps (snd (cleanup_path e q s))))"
      using Cons.prems(2) by (intro Cons.IH) auto
    then show ?thesis using q cleanup_path_fst [of e q s]
      by (simp add: then_do_def case_prod_beta)
  qed
qed

lemma finally_kept:
  assumes "p \<in> files s"
    and "\<forall>q. tempVideoPath s = Some q \<or> tempFullPath s = Some q \<or> q = chunkDir_of e taskId \<longrightarrow>
           (remove_error e q \<noteq> None \<and> p = q) \<or> \<not> under q p"
  shows "p \<in> files (snd (finally_block e taskId s))"
proof -
  have "p \<in> files (snd (cleanupFiles e [tempVideoPath s, tempFullPath s] s))"
    using assms by (intro cleanupFiles_kept) auto
  then have "p \<in> files (snd (cleanupChunks e taskId (snd (cleanupFiles e [tempVideoPath s, tempFullPath s] s))))"
    using assms(2) by (intro cleanupChunks_kept) auto
  then show ?thesis
    using cleanupFiles_fst [of e "[tempVideoPath s, tempFullPath s]" s]
    by (simp add: finally_block_def then_do_def case_prod_beta)
qed

subsection \<open>The files that a run leaves\<close>

lemma try_block_tails:
  "try_block e taskId url =
     then_do (findByIdAndUpdate e taskId (status_only DOWNLOADING)) (\<lambda>task.
     if task = None then raise ''Task not found after initial update.'' else
     then_do (downloadVideoFromUrl e url taskId) (\<lambda>videoPath.
     then_do (\<lambda>s. (Ok (), s\<lparr>tempVideoPath := Some videoPath\<rparr>)) (\<lambda>_.
     after_download e taskId videoPath)))"
  by (simp only: try_block_def after_download_def after_extract_def after_split_def)

lemma same_files_refl [simp]: "same_files s s"
  by (simp add: same_files_def)

lemma same_files_trans: "same_files s s' \<Longrightarrow> same_files s' s'' \<Longrightarrow> same_files s s''"
  by (simp add: same_files_def)

lemma then_do_same_files:
  assumes "\<And>s. same_files s (snd (m s))" and "\<And>x s. same_files s (snd (f x s))"
  shows "same_files s (snd (then_do m f s))"
proof (cases "m s")
  case (Pair r s1)
  have a: "same_files s s1" using assms(1) [of s] Pair by simp
  show ?thesis
  proof (cases r)
    case (Ok x)
    have "same_files s1 (snd (f x s1))" by (rule assms(2))
    with a have "same_files s (snd (f x s1))" by (rule same_files_trans)
    then show ?thesis using Pair Ok by (simp add: then_do_def)
  next
    case (Throw msg)
    then show ?thesis using Pair a by (simp add: then_do_def)
  next
    case Never
    then show ?thesis using Pair a by (simp add: then_do_def)
  qed
qed

lemma update_files: "same_files s (snd (findByIdAndUpdate e taskId u s))"
  by (simp add: findByIdAndUpdate_def same_files_def split: option.splits)

lemma raise_files: "same_files s (snd (raise m s))"
  by (simp add: raise_def)

lemma ret_files: "same_files s (snd (ret x s))"
  by (simp add: ret_def)

lemma transcribe_chunk_files: "same_files s (snd (transcribe_chunk e p acc s))"
  by (simp add: transcribe_chunk_def transcriptions_create_def fs_stat_def Let_def prog_defs same_files_def
      split: option.splits sum.splits)

lemma transcribe_loop_files: "same_files s (snd (transcribe_loop e ps acc s))"
proof (induction ps arbitrary: acc s)
  case Nil
  show ?case by (simp add: ret_def)
next
  case (Cons p ps)
  show ?case
    using then_do_same_files [of "transcribe_chunk e p acc" "transcribe_loop e ps" s]
      transcribe_chunk_files Cons
    by simp
qed

lemma transcribeAudio_files: "same_files s (snd (transcribeAudio e ps s))"
  unfolding transcribeAudio_def
  by (auto intro!: then_do_same_files transcribe_loop_files ret_files raise_files)

lemma guard_files: "same_files s (snd (transcript_guard tr s))"
  by (simp add: transcript_guard_def raise_def ret_def split: option.splits)

lemma after_split_files: "same_files s (snd (after_split e taskId cs s))"
  unfolding after_split_def
  by (intro then_do_same_files update_files transcribeAudio_files guard_files)
    (auto intro!: then_do_same_files update_files transcribeAudio_files guard_files raise_files ret_files)

lemma catch_files: "same_files s (snd (catch_block e taskId m s))"
  by (simp add: catch_block_def Let_def prog_defs findByIdAndUpdate_def same_files_def split: option.splits)

lemma split_post:
  "tempVideoPath (snd (splitAudio e fp taskId s)) = tempVideoPath s \<and>
   tempFullPath (snd (splitAudio e fp taskId s)) = tempFullPath s \<and>
   (\<forall>p \<in> files (snd (splitAudio e fp taskId s)).
      p \<in> files s \<or> (under (chunkDir_of e taskId) p \<and> chunkDir_of e taskId \<in> files (snd (splitAudio e fp taskId s))))"
  by (auto simp: splitAudio_def Let_def under_def path_join_def split: option.splits sum.splits prod.splits)

lemma extract_post:
  "tempVideoPath (snd (extractAudio e v s)) = tempVideoPath s \<and>
   tempFullPath (snd (extractAudio e v s)) = tempFullPath s \<and>
   (\<forall>x. fst (extractAudio e v s) = Ok x \<longrightarrow>
      x = getFullAudioPath e v ''mp3'' \<and> files (snd (extractAudio e v s)) = insert x (files s)) \<and>
   ((\<forall>x. fst (extractAudio e v s) \<noteq> Ok x) \<longrightarrow>
      files (snd (extractAudio e v s)) = files s \<or>
      (files (snd (extractAudio e v s)) = insert (getFullAudioPath e v ''mp3'') (files s) \<and> extract_left e v))"
  by (auto simp: extractAudio_def Let_def extract_left_def split: ffmpeg_outcome.splits)

lemma download_post:
  "tempVideoPath (snd (downloadVideoFromUrl e url taskId s)) = tempVideoPath s \<and>
   tempFullPath (snd (downloadVideoFromUrl e url taskId s)) = tempFullPath s \<and>
   (\<forall>x. fst (downloadVideoFromUrl e url taskId s) = Ok x \<longrightarrow>
      x = tempFilePath_of e url taskId \<and>
      files (snd (downloadVideoFromUrl e url taskId s)) = insert x (files s)) \<and>
   ((\<forall>x. fst (downloadVideoFromUrl e url taskId s) \<noteq> Ok x) \<longrightarrow>
      files (snd (downloadVideoFromUrl e url taskId s)) \<subseteq> insert (tempFilePath_of e url taskId) (files s) \<and>
      (tempFilePath_of e url taskId \<in> files (snd (downloadVideoFromUrl e url taskId s)) \<longrightarrow>
         remove_error e (tempFilePath_of e url taskId) \<noteq> None))"
  by (auto simp: downloadVideoFromUrl_def Let_def download_failed_def remove_partial_def prog_defs
      fs_remove_def under_def split: axios_outcome.splits stream_end.splits option.splits)

lemma after_extract_post:
  "tempVideoPath (snd (after_extract e taskId fp s)) = tempVideoPath s \<and>
   tempFullPath (snd (after_extract e taskId fp s)) = tempFullPath s \<and>
   (\<forall>p \<in> files (snd (after_extract e taskId fp s)).
      p \<in> files s \<or>
      (under (chunkDir_of e taskId) p \<and> chunkDir_of e taskId \<in> files (snd (after_extract e taskId fp s))))"
proof -
  obtain r s1 where m: "splitAudio e fp taskId s = (r, s1)" by force
  have sp: "tempVideoPath s1 = tempVideoPath s" "tempFullPath s1 = tempFullPath s"
    "\<forall>p \<in> files s1. p \<in> files s \<or> (under (chunkDir_of e taskId) p \<and> chunkDir_of e taskId \<in> files s1)"
    using split_post [of e fp taskId s] m by simp_all
  show ?thesis
  proof (cases r)
    case (Ok cs)
    let ?s2 = "s1\<lparr>audioChunkPaths := cs\<rparr>"
    have eq: "after_extract e taskId fp s = after_split e taskId cs ?s2"
      using m Ok by (simp add: after_extract_def then_do_def)
    have "same_files ?s2 (snd (after_split e taskId cs ?s2))" by (rule after_split_files)
    then show ?thesis using sp unfolding eq by (simp add: same_files_def)
  next
    case (Throw msg)
    then have "snd (after_extract e taskId fp s) = s1" using m by (simp add: after_extract_def then_do_def)
    then show ?thesis using sp by simp
  next
    case Never
    then have "snd (after_extract e taskId fp s) = s1" using m by (simp add: after_extract_def then_do_def)
    then show ?thesis using sp by simp
  qed
qed

lemma after_download_post:
  "tempVideoPath (snd (after_download e taskId v s)) = tempVideoPath s \<and>
   (tempFullPath (snd (after_download e taskId v s)) = tempFullPath s \<or>
    tempFullPath (snd (after_download e taskId v s)) = Some (getFullAudioPath e v ''mp3'')) \<and>
   (\<forall>p \<in> files (snd (after_download e taskId v s)).
      p \<in> files s \<or>
      (p = getFullAudioPath e v ''mp3'' \<and>
         (tempFullPath (snd (after_download e taskId v s)) = Some p \<or> extract_left e v)) \<or>
      (under (chunkDir_of e taskId) p \<and> chunkDir_of e taskId \<in> files (snd (after_download e taskId v s))))"
proof -
  let ?u = "findByIdAndUpdate e taskId (status_only EXTRACTING_AUDIO)"
  obtain r s1 where m: "?u s = (r, s1)" by force
  have u: "same_files s s1" using update_files [of s e taskId "status_only EXTRACTING_AUDIO"] m by simp
  consider (go) x where "r = Ok (Some x)" | (stop) "r = Ok None \<or> (\<forall>x. r \<noteq> Ok x)"
    by (cases r) auto
  then show ?thesis
  proof cases
    case stop
    then have "snd (after_download e taskId v s) = s1"
      using m by (cases r) (auto simp: after_download_def then_do_def raise_def)
    then show ?thesis using u by (simp add: same_files_def)
  next
    case go
    obtain r2 s2 where m2: "extractAudio e v s1 = (r2, s2)" by force
    note ep = extract_post [of e v s1]
    show ?thesis
    proof (cases r2)
      case (Ok fp)
      let ?s3 = "s2\<lparr>tempFullPath := Some fp\<rparr>"
      have fp: "fp = getFullAudioPath e v ''mp3''" "files s2 = insert fp (files s1)"
        "tempVideoPath s2 = tempVideoPath s1"
        using ep m2 Ok by simp_all
      have eq: "after_download e taskId v s = after_extract e taskId fp ?s3"
        using m go m2 Ok by (simp add: after_download_def then_do_def)
      note ae = after_extract_post [of e taskId fp ?s3]
      show ?thesis unfolding eq using ae fp u by (auto simp: same_files_def)
    next
      case (Throw msg)
      then have "snd (after_download e taskId v s) = s2"
        using m go m2 by (simp add: after_download_def then_do_def)
      then show ?thesis using ep m2 Throw u by (auto simp: same_files_def)
    next
      case Never
      then have "snd (after_download e taskId v s) = s2"
        using m go m2 by (simp add: after_download_def then_do_def)
      then show ?thesis using ep m2 Never u by (auto simp: same_files_def)
    qed
  qed
qed

lemma try_block_accounted:
  assumes "tempVideoPath s = None" and "tempFullPath s = None"
  shows "accounted e taskId url s (snd (try_block e taskId url s))"
proof -
  let ?u = "findByIdAndUpdate e taskId (status_only DOWNLOADING)"
  let ?vp = "tempFilePath_of e url taskId"
  obtain r s1 where m: "?u s = (r, s1)" by force
  have u: "same_files s s1" using update_files [of s e taskId "status_only DOWNLOADING"] m by simp
  consider (go) x where "r = Ok (Some x)" | (stop) "r = Ok None \<or> (\<forall>x. r \<noteq> Ok x)"
    by (cases r) auto
  then show ?thesis
  proof cases
    case stop
    then have "snd (try_block e taskId url s) = s1"
      using m by (cases r) (auto simp: try_block_tails then_do_def raise_def)
    then show ?thesis using u assms by (simp add: same_files_def accounted_def)
  next
    case go
    obtain r2 s2 where m2: "downloadVideoFromUrl e url taskId s1 = (r2, s2)" by force
    note dp = download_post [of e url taskId s1]
    show ?thesis
    proof (cases r2)
      case (Ok v)
      let ?s3 = "s2\<lparr>tempVideoPath := Some v\<rparr>"
      have v: "v = ?vp" "files s2 = insert v (files s1)" "tempFullPath s2 = tempFullPath s1"
        using dp m2 Ok by simp_all
      have eq: "try_block e taskId url s = after_download e taskId v ?s3"
        using m go m2 Ok by (simp add: try_block_tails then_do_def)
      note ad = after_download_post [of e taskId v ?s3]
      show ?thesis unfolding eq using ad v u assms
        by (auto simp: same_files_def accounted_def audioPath_of_def)
    next
      case (Throw msg)
      then have "snd (try_block e taskId url s) = s2"
        using m go m2 by (simp add: try_block_tails then_do_def)
      then show ?thesis using dp m2 Throw u assms by (auto simp: same_files_def accounted_def)
    next
      case Never
      then have "snd (try_block e taskId url s) = s2"
        using m go m2 by (simp add: try_block_tails then_do_def)
      then show ?thesis using dp m2 Never u assms by (auto simp: same_files_def accounted_def)
    qed
  qed
qed

lemma under_refl [simp]: "under p p"
  by (simp add: under_def)

lemma under_trans: "under q d \<Longrightarrow> under d p \<Longrightarrow> under q p"
  by (auto simp: under_def prefix_def)

lemma try_and_catch_accounted: "accounted e taskId url s (snd (try_and_catch e taskId url s))"
proof -
  have a: "accounted e taskId url (entry s) (snd (try_block e taskId url (entry s)))"
    by (rule try_block_accounted) (simp_all add: entry_def)
  obtain r s1 where tb: "try_block e taskId url (entry s) = (r, s1)" by force
  have b: "accounted e taskId url s s1" using a tb by (simp add: accounted_def entry_def)
  show ?thesis
  proof (cases r)
    case (Throw msg)
    have "same_files s1 (snd (catch_block e taskId msg s1))" by (rule catch_files)
    then show ?thesis using b tb Throw
      by (simp add: try_and_catch_def try_catch_def accounted_def same_files_def)
  next
    case (Ok x)
    then show ?thesis using b tb by (simp add: try_and_catch_def try_catch_def)
  next
    case Never
    then show ?thesis using b tb by (simp add: try_and_catch_def try_catch_def)
  qed
qed

lemma cleanup_path_removed:
  assumes "x \<in> files s" and "x \<notin> files (snd (cleanup_path e q s))"
  shows "under q x \<and> (remove_error e q \<noteq> None \<or> (\<forall>y \<in> files (snd (cleanup_path e q s)). \<not> under q y))"
  using assms by (auto simp: cleanup_path_def prog_defs fs_defs split: option.splits if_splits)

lemma cleanupFiles_removed:
  assumes "x \<in> files s" and "x \<notin> files (snd (cleanupFiles e ps s))"
  shows "\<exists>q. Some q \<in> set ps \<and> under q x \<and>
           (remove_error e q \<noteq> None \<or> (\<forall>y \<in> files (snd (cleanupFiles e ps s)). \<not> under q y))"
  using assms
proof (induction ps arbitrary: s)
  case Nil
  then show ?case by (simp add: ret_def)
next
  case (Cons fp ps)
  show ?case
  proof (cases "fp = None \<or> fp = Some []")
    case True
    then have eq: "cleanupFiles e (fp # ps) s = cleanupFiles e ps s" by (auto simp: then_do_def ret_def)
    from Cons.IH [of s] Cons.prems show ?thesis unfolding eq by auto
  next
    case False
    then obtain q where q: "fp = Some q" "q \<noteq> []" by (cases fp) auto
    let ?s1 = "snd (cleanup_path e q s)"
    have eq: "cleanupFiles e (fp # ps) s = cleanupFiles e ps ?s1"
      using q cleanup_path_fst [of e q s] by (simp add: then_do_def case_prod_beta)
    have sub: "files (snd (cleanupFiles e ps ?s1)) \<subseteq> files ?s1" by (rule cleanupFiles_subset)
    show ?thesis
    proof (cases "x \<in> files ?s1")
      case True
      from Cons.IH [OF True] Cons.prems(2) show ?thesis unfolding eq by auto
    next
      case False
      from cleanup_path_removed [OF Cons.prems(1) False] sub q show ?thesis unfolding eq by auto
    qed
  qed
qed

lemma finally_accounted:
  assumes acc: "accounted e taskId url s0 s2"
    and p3: "p \<in> files (snd (finally_block e taskId s2))" and new: "p \<notin> files s0"
  shows "(\<exists>q. (q = tempFilePath_of e url taskId \<or> q = audioPath_of e url taskId \<or> q = chunkDir_of e taskId) \<and>
            under q p \<and> (exists_error e q \<noteq> None \<or> remove_error e q \<noteq> None)) \<or>
         (p = audioPath_of e url taskId \<and> extract_left e (tempFilePath_of e url taskId))"
proof -
  let ?vp = "tempFilePath_of e url taskId" and ?ap = "audioPath_of e url taskId" and ?cd = "chunkDir_of e taskId"
  let ?s2' = "snd (cleanupFiles e [tempVideoPath s2, tempFullPath s2] s2)"
  have s3: "snd (finally_block e taskId s2) = snd (cleanupChunks e taskId ?s2')"
    using cleanupFiles_fst [of e "[tempVideoPath s2, tempFullPath s2]" s2]
    by (simp add: finally_block_def then_do_def case_prod_beta)
  have p2: "p \<in> files s2" using p3 finally_files [of e taskId s2] by blast
  have p2': "p \<in> files ?s2'" using p3 cleanupChunks_subset [of e taskId ?s2'] unfolding s3 by blast
  have ne: "?vp \<noteq> []" "?ap \<noteq> []"
    by (simp_all add: tempFilePath_of_def audioPath_of_def getFullAudioPath_def path_join_nonempty)
  from acc p2 new consider
      (video) "p = ?vp" "tempVideoPath s2 = Some p \<or> remove_error e p \<noteq> None"
    | (audio) "p = ?ap" "tempFullPath s2 = Some p \<or> extract_left e ?vp"
    | (chunk) "under ?cd p" "?cd \<in> files s2"
    by (auto simp: accounted_def)
  then show ?thesis
  proof cases
    case video
    have "exists_error e p \<noteq> None \<or> remove_error e p \<noteq> None"
    proof (rule ccontr)
      assume "\<not> (exists_error e p \<noteq> None \<or> remove_error e p \<noteq> None)"
      then have ok: "exists_error e p = None" "remove_error e p = None" by simp_all
      with video(2) have "tempVideoPath s2 = Some p" by simp
      then have "p \<notin> files (snd (finally_block e taskId s2))"
        using ne(1) video(1) ok by (intro finally_gone) simp_all
      with p3 show False by simp
    qed
    with video(1) show ?thesis by (intro disjI1 exI [of _ p]) simp
  next
    case audio
    show ?thesis
    proof (cases "extract_left e ?vp")
      case True
      with audio(1) show ?thesis by simp
    next
      case False
      have "exists_error e p \<noteq> None \<or> remove_error e p \<noteq> None"
      proof (rule ccontr)
        assume "\<not> (exists_error e p \<noteq> None \<or> remove_error e p \<noteq> None)"
        then have ok: "exists_error e p = None" "remove_error e p = None" by simp_all
        from audio(2) False have "tempFullPath s2 = Some p" by simp
        then have "p \<notin> files (snd (finally_block e taskId s2))"
          using ne(2) audio(1) ok by (intro finally_gone) simp_all
        with p3 show False by simp
      qed
      with audio(1) show ?thesis by (intro disjI1 exI [of _ p]) simp
    qed
  next
    case chunk
    show ?thesis
    proof (cases "?cd \<in> files ?s2'")
      case True
      have "exists_error e ?cd \<noteq> None \<or> remove_error e ?cd \<noteq> None"
      proof (rule ccontr)
        assume "\<not> (exists_error e ?cd \<noteq> None \<or> remove_error e ?cd \<noteq> None)"
        then have ok: "exists_error e ?cd = None" "remove_error e ?cd = None" by simp_all
        from cleanupChunks_gone [OF ok, of ?s2'] True
        have "\<forall>q \<in> files (snd (cleanupChunks e taskId ?s2')). \<not> under ?cd q" by simp
        with p3 chunk(1) show False unfolding s3 by blast
      qed
      with chunk(1) show ?thesis by (intro disjI1 exI [of _ ?cd]) simp
    next
      case False
      from cleanupFiles_removed [OF chunk(2) False]
      obtain q where q: "Some q \<in> set [tempVideoPath s2, tempFullPath s2]" "under q ?cd"
        "remove_error e q \<noteq> None \<or> (\<forall>y \<in> files ?s2'. \<not> under q y)"
        by blast
      have up: "under q p" using q(2) chunk(1) by (rule under_trans)
      with q(3) p2' have rej: "remove_error e q \<noteq> None" by blast
      have "q = ?vp \<or> q = ?ap" using q(1) acc by (auto simp: accounted_def)
      with up rej show ?thesis by (intro disjI1 exI [of _ q]) auto
    qed
  qed
qed

lemma env_timeout_run:
  "fst (try_and_catch env_timeout ''t1'' ''http://a.test/v.mp4'' state1) = Ok ()"
  "map_option status (tasks (snd (try_and_catch env_timeout ''t1'' ''http://a.test/v.mp4'' state1)) ''t1'') =
     Some FAILED"
  by (simp_all add: eval_defs env_timeout_def)

lemma env_busy_run:
  "fst (try_and_catch env_busy ''t1'' ''http://a.test/v.mp4'' state1) = Ok ()"
  "map_option status (tasks (snd (try_and_catch env_busy ''t1'' ''http://a.test/v.mp4'' state1)) ''t1'') = Some DONE"
  "tempVideoPath (snd (try_and_catch env_busy ''t1'' ''http://a.test/v.mp4'' state1)) = Some ''/tmp/t1_downloaded.mp4''"
  "tempFullPath (snd (try_and_catch env_busy ''t1'' ''http://a.test/v.mp4'' state1)) = Some ''/tmp/v_full_audio.mp3''"
  "''/tmp/t1_downloaded.mp4'' \<in> files (snd (try_and_catch env_busy ''t1'' ''http://a.test/v.mp4'' state1))"
  by (simp_all add: eval_defs env_busy_def)

subsection \<open>The download and its timeout\<close>

lemma then_do_fst_throw: "fst (m s) = Throw e \<Longrightarrow> fst (then_do m f s) = Throw e"
  by (cases "m s") (simp add: then_do_def)

lemma download_timeout_rejects:
  "axios e url = AxiosErrorNoResponse m \<Longrightarrow>
   fst (downloadVideoFromUrl e url taskId s) = Throw ''Download failed: No response received from server.''"
  by (simp add: downloadVideoFromUrl_def Let_def download_failed_def remove_partial_def prog_defs
      fs_remove_def split: option.splits)

lemma download_timed_out_rejects:
  "timeout_message (axios e url) = Some msg \<Longrightarrow> fst (downloadVideoFromUrl e url taskId s) = Throw msg"
  by (auto simp: timeout_message_def downloadVideoFromUrl_def Let_def download_failed_def remove_partial_def
      prog_defs fs_remove_def split: axios_outcome.splits stream_end.splits option.splits if_splits)

lemma download_trace:
  "trace (snd (downloadVideoFromUrl e url taskId s)) = trace s @ [AxiosRequest (download_options e url)]"
  by (simp add: downloadVideoFromUrl_def Let_def download_failed_def remove_partial_def prog_defs
      fs_remove_def split: axios_outcome.splits stream_end.splits option.splits)

lemma download_throw_escapes:
  assumes "tasks s taskId = Some d" and "store_error e DOWNLOADING = None"
    and "\<And>sx. fst (downloadVideoFromUrl e url taskId sx) = Throw m"
  shows "fst (try_block e taskId url s) = Throw m"
proof -
  have u: "findByIdAndUpdate e taskId (status_only DOWNLOADING) s =
      (Ok (Some (apply_update (status_only DOWNLOADING) (now s) d)),
       s\<lparr>tasks := (tasks s)(taskId \<mapsto> apply_update (status_only DOWNLOADING) (now s) d),
         trace := trace s @ [Update taskId (set_status (status_only DOWNLOADING)) Applied]\<rparr>)"
    using assms(1,2) by (intro update_applied) (simp_all add: status_only_def)
  show ?thesis
    unfolding try_block_def
    by (subst then_do_def) (simp add: u then_do_fst_throw assms(3))
qed

text \<open>
  A stage that throws makes the try block throw with the same message, whichever stage it
  is: the stages before it have returned and the status writes before it were applied.
  What a stage returns does not depend on the state it starts in.
\<close>

lemma then_do_ok: "fst (m s) = Ok x \<Longrightarrow> then_do m f s = f x (snd (m s))"
  by (cases "m s") (simp add: then_do_def)

lemma then_do_assign: "then_do (\<lambda>s. (Ok x, g s)) f s = f x (g s)"
  by (simp add: then_do_def)

lemma update_passes:
  assumes "tasks s taskId = Some d" and "store_error e st = None"
  shows "\<exists>x s' d'. (\<forall>f. then_do (findByIdAndUpdate e taskId (status_only st)) f s = f (Some x) s') \<and>
           tasks s' taskId = Some d'"
proof -
  let ?u = "status_only st"
  let ?s = "s\<lparr>tasks := (tasks s)(taskId \<mapsto> apply_update ?u (now s) d),
        trace := trace s @ [Update taskId (set_status ?u) Applied]\<rparr>"
  have "findByIdAndUpdate e taskId ?u s = (Ok (Some (apply_update ?u (now s) d)), ?s)"
    using assms by (intro update_applied) (simp_all add: status_only_def)
  then have "\<forall>f. then_do (findByIdAndUpdate e taskId ?u) f s = f (Some (apply_update ?u (now s) d)) ?s"
    by (simp add: then_do_def)
  moreover have "tasks ?s taskId = Some (apply_update ?u (now s) d)" by simp
  ultimately show ?thesis by blast
qed

lemma download_fst_indep:
  "fst (downloadVideoFromUrl e url t s) = fst (downloadVideoFromUrl e url t s')"
  by (simp add: downloadVideoFromUrl_def Let_def download_failed_def remove_partial_def prog_defs
      fs_remove_def split: axios_outcome.splits stream_end.splits option.splits)

lemma extract_fst_indep: "fst (extractAudio e v s) = fst (extractAudio e v s')"
  by (simp add: extractAudio_def Let_def split: ffmpeg_outcome.splits)

lemma split_fst_indep: "fst (splitAudio e a t s) = fst (splitAudio e a t s')"
  by (simp add: splitAudio_def Let_def split: option.splits sum.splits)

lemma transcribe_fst_indep: "fst (transcribeAudio e cs s) = fst (transcribeAudio e cs s')"
  by (simp add: transcribeAudio_result)

lemma download_passes:
  assumes "fst (downloadVideoFromUrl e url t s0) = Ok vp" and "tasks s taskId = Some d"
  shows "\<exists>s'. (\<forall>f. then_do (downloadVideoFromUrl e url t) f s = f vp s') \<and> tasks s' taskId = Some d"
proof -
  have "fst (downloadVideoFromUrl e url t s) = Ok vp"
    using assms(1) download_fst_indep [of e url t s s0] by simp
  then have "\<forall>f. then_do (downloadVideoFromUrl e url t) f s = f vp (snd (downloadVideoFromUrl e url t s))"
    by (simp add: then_do_ok [of "downloadVideoFromUrl e url t" s vp])
  moreover have "tasks (snd (downloadVideoFromUrl e url t s)) taskId = Some d"
    using download_same [of s e url t] assms(2) by (simp add: same_store_def)
  ultimately show ?thesis by blast
qed

lemma extract_passes:
  assumes "fst (extractAudio e v s0) = Ok fp" and "tasks s taskId = Some d"
  shows "\<exists>s'. (\<forall>f. then_do (extractAudio e v) f s = f fp s') \<and> tasks s' taskId = Some d"
proof -
  have "fst (extractAudio e v s) = Ok fp"
    using assms(1) extract_fst_indep [of e v s s0] by simp
  then have "\<forall>f. then_do (extractAudio e v) f s = f fp (snd (extractAudio e v s))"
    by (simp add: then_do_ok [of "extractAudio e v" s fp])
  moreover have "tasks (snd (extractAudio e v s)) taskId = Some d"
    using extract_same [of s e v] assms(2) by (simp add: same_store_def)
  ultimately show ?thesis by blast
qed

lemma split_passes:
  assumes "fst (splitAudio e a t s0) = Ok cs" and "tasks s taskId = Some d"
  shows "\<exists>s'. (\<forall>f. then_do (splitAudio e a t) f s = f cs s') \<and> tasks s' taskId = Some d"
proof -
  have "fst (splitAudio e a t s) = Ok cs"
    using assms(1) split_fst_indep [of e a t s s0] by simp
  then have "\<forall>f. then_do (splitAudio e a t) f s = f cs (snd (splitAudio e a t s))"
    by (simp add: then_do_ok [of "splitAudio e a t" s cs])
  moreover have "tasks (snd (splitAudio e a t s)) taskId = Some d"
    using split_same [of s e a t] assms(2) by (simp add: same_store_def)
  ultimately show ?thesis by blast
qed

lemma stage_throw_escapes:
  assumes d: "tasks s taskId = Some d"
    and s1: "store_error e DOWNLOADING = None"
    and st: "fst (downloadVideoFromUrl e url taskId s) = Throw m \<or>
      (\<exists>vp. fst (downloadVideoFromUrl e url taskId s) = Ok vp \<and> store_error e EXTRACTING_AUDIO = None \<and>
         (fst (extractAudio e vp s) = Throw m \<or>
          (\<exists>fp. fst (extractAudio e vp s) = Ok fp \<and>
             (fst (splitAudio e fp taskId s) = Throw m \<or>
              (\<exists>cs. fst (splitAudio e fp taskId s) = Ok cs \<and> store_error e TRANSCRIBING = None \<and>
                 fst (transcribeAudio e cs s) = Throw m)))))"
  shows "fst (try_block e taskId url s) = Throw m"
proof -
  obtain x1 s1 d1 where u1: "\<And>f :: _ \<Rightarrow> state \<Rightarrow> unit res \<times> state. then_do (findByIdAndUpdate e taskId (status_only DOWNLOADING)) f s = f (Some x1) s1"
    and t1: "tasks s1 taskId = Some d1"
    using update_passes [OF d s1] by blast
  have start: "try_block e taskId url s =
     then_do (downloadVideoFromUrl e url taskId) (\<lambda>videoPath.
     then_do (\<lambda>s. (Ok (), s\<lparr>tempVideoPath := Some videoPath\<rparr>)) (\<lambda>_.
     then_do (findByIdAndUpdate e taskId (status_only EXTRACTING_AUDIO)) (\<lambda>task.
     if task = None then raise ''Task not found before audio extraction.'' else
     then_do (extractAudio e videoPath) (\<lambda>fullPath.
     then_do (\<lambda>s. (Ok (), s\<lparr>tempFullPath := Some fullPath\<rparr>)) (\<lambda>_.
     then_do (splitAudio e fullPath taskId) (\<lambda>chunkPaths.
     then_do (\<lambda>s. (Ok (), s\<lparr>audioChunkPaths := chunkPaths\<rparr>)) (\<lambda>_.
     then_do (findByIdAndUpdate e taskId (status_only TRANSCRIBING)) (\<lambda>task.
     if task = None then raise ''Task not found before transcription.'' else
     then_do (transcribeAudio e chunkPaths) (\<lambda>t.
     then_do (transcript_guard (Some t)) (\<lambda>_.
     then_do (findByIdAndUpdate e taskId (done_update t)) (\<lambda>task.
     if task = None then raise ''Task not found when saving final result.''
     else ret ()))))))))))) s1"
    unfolding try_block_def by (simp add: u1)
  from st show ?thesis
  proof (elim disjE exE conjE)
    assume "fst (downloadVideoFromUrl e url taskId s) = Throw m"
    then have "fst (downloadVideoFromUrl e url taskId s1) = Throw m"
      using download_fst_indep [of e url taskId s1 s] by simp
    then show ?thesis unfolding start by (rule then_do_fst_throw)
  next
    fix vp
    assume dl: "fst (downloadVideoFromUrl e url taskId s) = Ok vp"
      and s2: "store_error e EXTRACTING_AUDIO = None"
      and ex: "fst (extractAudio e vp s) = Throw m"
    obtain s2 where a: "\<And>f :: _ \<Rightarrow> state \<Rightarrow> unit res \<times> state. then_do (downloadVideoFromUrl e url taskId) f s1 = f vp s2" and t2: "tasks s2 taskId = Some d1"
      using download_passes [OF dl t1] by blast
    have "tasks (s2\<lparr>tempVideoPath := Some vp\<rparr>) taskId = Some d1" using t2 by simp
    then obtain x3 s3 d3 where
      u2: "\<And>f :: _ \<Rightarrow> state \<Rightarrow> unit res \<times> state. then_do (findByIdAndUpdate e taskId (status_only EXTRACTING_AUDIO)) f (s2\<lparr>tempVideoPath := Some vp\<rparr>) = f (Some x3) s3"
      using update_passes [OF _ s2] by blast
    have "fst (extractAudio e vp s3) = Throw m"
      using ex extract_fst_indep [of e vp s3 s] by simp
    then show ?thesis
      unfolding start
      by (simp add: a u2 then_do_assign then_do_fst_throw)
  next
    fix vp fp
    assume dl: "fst (downloadVideoFromUrl e url taskId s) = Ok vp"
      and s2: "store_error e EXTRACTING_AUDIO = None"
      and ex: "fst (extractAudio e vp s) = Ok fp"
      and sp: "fst (splitAudio e fp taskId s) = Throw m"
    obtain s2 where a: "\<And>f :: _ \<Rightarrow> state \<Rightarrow> unit res \<times> state. then_do (downloadVideoFromUrl e url taskId) f s1 = f vp s2" and t2: "tasks s2 taskId = Some d1"
      using download_passes [OF dl t1] by blast
    have "tasks (s2\<lparr>tempVideoPath := Some vp\<rparr>) taskId = Some d1" using t2 by simp
    then obtain x3 s3 d3 where
      u2: "\<And>f :: _ \<Rightarrow> state \<Rightarrow> unit res \<times> state. then_do (findByIdAndUpdate e taskId (status_only EXTRACTING_AUDIO)) f (s2\<lparr>tempVideoPath := Some vp\<rparr>) = f (Some x3) s3"
      and t3: "tasks s3 taskId = Some d3"
      using update_passes [OF _ s2] by blast
    obtain s4 where b: "\<And>f :: _ \<Rightarrow> state \<Rightarrow> unit res \<times> state. then_do (extractAudio e vp) f s3 = f fp s4" and t4: "tasks s4 taskId = Some d3"
      using extract_passes [OF ex t3] by blast
    have "fst (splitAudio e fp taskId (s4\<lparr>tempFullPath := Some fp\<rparr>)) = Throw m"
      using sp split_fst_indep [of e fp taskId _ s] by simp
    then show ?thesis
      unfolding start
      by (simp add: a u2 b then_do_assign then_do_fst_throw)
  next
    fix vp fp cs
    assume dl: "fst (downloadVideoFromUrl e url taskId s) = Ok vp"
      and s2: "store_error e EXTRACTING_AUDIO = None"
      and ex: "fst (extractAudio e vp s) = Ok fp"
      and sp: "fst (splitAudio e fp taskId s) = Ok cs"
      and s3: "store_error e TRANSCRIBING = None"
      and tr: "fst (transcribeAudio e cs s) = Throw m"
    obtain s2 where a: "\<And>f :: _ \<Rightarrow> state \<Rightarrow> unit res \<times> state. then_do (downloadVideoFromUrl e url taskId) f s1 = f vp s2" and t2: "tasks s2 taskId = Some d1"
      using download_passes [OF dl t1] by blast
    have "tasks (s2\<lparr>tempVideoPath := Some vp\<rparr>) taskId = Some d1" using t2 by simp
    then obtain x3 s3 d3 where
      u2: "\<And>f :: _ \<Rightarrow> state \<Rightarrow> unit res \<times> state. then_do (findByIdAndUpdate e taskId (status_only EXTRACTING_AUDIO)) f (s2\<lparr>tempVideoPath := Some vp\<rparr>) = f (Some x3) s3"
      and t3: "tasks s3 taskId = Some d3"
      using update_passes [OF _ s2] by blast
    obtain s4 where b: "\<And>f :: _ \<Rightarrow> state \<Rightarrow> unit res \<times> state. then_do (extractAudio e vp) f s3 = f fp s4" and t4: "tasks s4 taskId = Some d3"
      using extract_passes [OF ex t3] by blast
    have "tasks (s4\<lparr>tempFullPath := Some fp\<rparr>) taskId = Some d3" using t4 by simp
    then obtain s5 where c: "\<And>f :: _ \<Rightarrow> state \<Rightarrow> unit res \<times> state. then_do (splitAudio e fp taskId) f (s4\<lparr>tempFullPath := Some fp\<rparr>) = f cs s5"
      and t5: "tasks s5 taskId = Some d3"
      using split_passes [OF sp] by blast
    have "tasks (s5\<lparr>audioChunkPaths := cs\<rparr>) taskId = Some d3" using t5 by simp
    then obtain x6 s6 d6 where
      u3: "\<And>f :: _ \<Rightarrow> state \<Rightarrow> unit res \<times> state. then_do (findByIdAndUpdate e taskId (status_only TRANSCRIBING)) f (s5\<lparr>audioChunkPaths := cs\<rparr>) = f (Some x6) s6"
      using update_passes [OF _ s3] by blast
    have "fst (transcribeAudio e cs s6) = Throw m"
      using tr transcribe_fst_indep [of e cs s6 s] by simp
    then show ?thesis
      unfolding start
      by (simp add: a u2 b c u3 then_do_assign then_do_fst_throw)
  qed
qed

lemma failed_request_skipped:
  "groq_create e chunkPath = Inl m \<Longrightarrow> fst (transcribe_chunk e chunkPath acc s) = Ok acc"
  by (simp add: transcribe_chunk_result skipped_def split: option.splits)

lemma env_groq_timeout_run:
  "fst (try_and_catch env_groq_timeout ''t1'' ''http://a.test/v.mp4'' state1) = Ok ()"
  "map_option status (tasks (snd (try_and_catch env_groq_timeout ''t1'' ''http://a.test/v.mp4'' state1)) ''t1'') =
     Some DONE"
  "GroqRequest [(''file'', Str ''/tmp/t1_chunks/chunk_000.mp3''), (''model'', Str ''whisper-large-v3'')] \<in>
     set (trace (snd (try_and_catch env_groq_timeout ''t1'' ''http://a.test/v.mp4'' state1)))"
  by (simp_all add: eval_defs env_groq_timeout_def suffix_to_prefix)

subsection \<open>The registry\<close>

lemma upsert_urls:
  "map agent_url (upsert key c t reg) =
     (if key \<in> set (map agent_url reg) then map agent_url reg else map agent_url reg @ [key])"
  by (induction reg) auto

lemma upsert_distinct: "distinct (map agent_url reg) \<Longrightarrow> distinct (map agent_url (upsert key c t reg))"
  by (simp add: upsert_urls)

lemma get_upsert:
  "\<exists>r. get_agent key (upsert key c t reg) = Inr r \<and> agent_url r = key \<and> card r = c \<and>
       lastRefreshedAt r = t \<and>
       (case get_agent key reg of Inl err \<Rightarrow> registeredAt r = t | Inr r0 \<Rightarrow> registeredAt r = registeredAt r0)"
  by (induction reg) auto

lemma get_agent_filter:
  "distinct (map agent_url reg) \<Longrightarrow> get_agent key reg = Inr r \<Longrightarrow>
   filter (\<lambda>x. agent_url x = key) reg = [r]"
proof (induction reg)
  case Nil
  then show ?case by simp
next
  case (Cons a reg)
  show ?case
  proof (cases "agent_url a = key")
    case True
    have "agent_url a \<notin> agent_url ` set reg" using Cons.prems(1) by simp
    then have "\<forall>x \<in> set reg. agent_url x \<noteq> key" using True by (metis image_eqI)
    then have "filter (\<lambda>x. agent_url x = key) reg = []" by (simp add: filter_empty_conv)
    then show ?thesis using True Cons.prems(2) by simp
  next
    case False
    then show ?thesis using Cons by simp
  qed
qed

lemma get_agent_known: "get_agent key reg = Inr r \<Longrightarrow> key \<in> set (map agent_url reg)"
  by (induction reg) (auto split: if_splits)

lemma register_Inr:
  assumes "register fetch norm t u reg = Inr (r, reg')"
  shows "\<exists>dsc c. fetch u = Fetched dsc \<and> validate dsc = Some c \<and> reg' = upsert (norm u) c t reg \<and>
          get_agent (norm u) reg' = Inr r"
  using assms
  by (auto simp: register_def split: fetch_outcome.splits option.splits sum.splits)

section \<open>Claims about the task processor\<close>

subsection \<open>C1: an exception in the try block ends in a FAILED write\<close>

text \<open>
  Claim C1. Take a run of \<^verbatim>\<open>processVideoTask\<close> on a task of the store in which an
  exception with message \<open>message\<close> escapes the try block, as it does when the download, the
  audio extraction, the splitting or the transcription throws (lemma
  \<open>stage_throw_escapes\<close>); \<open>s1\<close> is the state at that point, which holds the last status
  the run persisted. Then the catch block returns
  normally in a state \<open>s2\<close>. When the store applies the FAILED write, the document of the
  task in \<open>s2\<close> is the one of \<open>s1\<close> with status FAILED and the message
  \<open>''Task failed: '' @ message\<close>; when the store rejects that write, the documents of
  \<open>s2\<close> are those of \<open>s1\<close>. The finally block starts in \<open>s2\<close>, so the write precedes the
  cleanup; it returns normally, leaves the documents as they are, and the routine as a
  whole returns normally: nothing is thrown to its caller.
\<close>

theorem escaping_exception_marks_failed:
  assumes "tasks s taskId = Some d"
    and "try_block e taskId url (entry s) = (Throw message, s1)"
  shows "\<exists>d1 s2 s3.
           tasks s1 taskId = Some d1 \<and>
           try_and_catch e taskId url s = (Ok (), s2) \<and>
           tasks s2 = (case store_error e FAILED of
                         None \<Rightarrow> (tasks s1)(taskId \<mapsto>
                            d1\<lparr>status := FAILED, errorMessage := Some (''Task failed: '' @ message),
                               updatedAt := now s1\<rparr>)
                       | Some dbMessage \<Rightarrow> tasks s1) \<and>
           finally_block e taskId s2 = (Ok (), s3) \<and>
           processVideoTask e taskId url s = (Ok (), s3) \<and>
           tasks s3 = tasks s2"
proof -
  have "tasks (entry s) taskId = Some d" "tempVideoPath (entry s) = None" "tempFullPath (entry s) = None"
    using assms(1) by (simp_all add: entry_def)
  from try_block_outcome [OF this, of e url]
  obtain k rej where "stopped taskId d (entry s) k rej s1"
    using assms(2) by (auto simp: try_outcome_def)
  then obtain d1 where d1: "tasks s1 taskId = Some d1"
    using assms(1) by (auto simp: stopped_def entry_def split: if_splits)
  obtain s2 where s2: "catch_block e taskId message s1 = (Ok (), s2)"
    and t2: "tasks s2 = (case store_error e FAILED of
                         None \<Rightarrow> (tasks s1)(taskId \<mapsto>
                            d1\<lparr>status := FAILED, errorMessage := Some (''Task failed: '' @ message),
                               updatedAt := now s1\<rparr>)
                       | Some dbMessage \<Rightarrow> tasks s1)"
  proof (cases "store_error e FAILED")
    case None
    show ?thesis using catch_applied [OF d1 None, of message] None
      by (intro that) (assumption, simp)
  next
    case (Some dbm)
    show ?thesis using catch_rejected [OF Some, of taskId message s1] Some
      by (intro that) (assumption, simp)
  qed
  have tc: "try_and_catch e taskId url s = (Ok (), s2)"
    using assms(2) s2 by (simp add: try_and_catch_def try_catch_def)
  obtain s3 where s3: "finally_block e taskId s2 = (Ok (), s3)"
    using finally_fst [of e taskId s2] by (cases "finally_block e taskId s2") simp
  have "same_store s2 s3" using finally_same [of s2 e taskId] s3 by simp
  then have t3: "tasks s3 = tasks s2" by (simp add: same_store_def)
  have "processVideoTask e taskId url s = (Ok (), s3)"
    using process_eq [of e taskId url s] tc s3 by simp
  with d1 tc t2 s3 t3 show ?thesis by blast
qed

text \<open>
  The hypotheses hold for the task \<open>''t1''\<close> when the download runs into its timeout: the
  task ends FAILED with the message of the download.
\<close>

theorem escaping_exception_witness:
  "\<exists>s3. processVideoTask env_timeout ''t1'' ''http://a.test/v.mp4'' state1 = (Ok (), s3) \<and>
        map_option status (tasks s3 ''t1'') = Some FAILED \<and>
        map_option errorMessage (tasks s3 ''t1'') =
          Some (Some ''Task failed: Download failed: No response received from server.'')"
proof -
  have h1: "tasks state1 ''t1'' = Some (task1)"
    by (simp add: state1_def state0_def)
  have "fst (try_block env_timeout ''t1'' ''http://a.test/v.mp4'' (entry state1)) =
      Throw ''Download failed: No response received from server.''"
    by (simp add: run_defs env_timeout_def env0_def config0_def state1_def state0_def Let_def)
  then have h2: "try_block env_timeout ''t1'' ''http://a.test/v.mp4'' (entry state1) =
      (Throw ''Download failed: No response received from server.'',
       snd (try_block env_timeout ''t1'' ''http://a.test/v.mp4'' (entry state1)))"
    by (metis prod.collapse)
  have h3: "store_error env_timeout FAILED = None"
    by (simp add: env_timeout_def env0_def)
  from escaping_exception_marks_failed [OF h1 h2] h3 show ?thesis
    by auto
qed

subsection \<open>C2: cleanup on every exit path\<close>

text \<open>
  Claim C2 says that on every exit path the downloaded video, the extracted audio and the
  chunk directory are removed, so that no transient file remains once the task is DONE or
  FAILED. The cleanup routines catch the errors of the file system: in the environment in
  which the removal of the downloaded video rejects, the run ends normally with the task
  DONE, the variable \<^verbatim>\<open>tempVideoPath\<close> holds the path of the video, and the video is still
  there after the finally block.
\<close>

theorem cleanup_leaves_file_counterexample:
  "fst (processVideoTask env_busy ''t1'' ''http://a.test/v.mp4'' state1) = Ok () \<and>
   map_option status (tasks (snd (processVideoTask env_busy ''t1'' ''http://a.test/v.mp4'' state1)) ''t1'') =
     Some DONE \<and>
   tempVideoPath (snd (processVideoTask env_busy ''t1'' ''http://a.test/v.mp4'' state1)) =
     Some ''/tmp/t1_downloaded.mp4'' \<and>
   ''/tmp/t1_downloaded.mp4'' \<in> files (snd (processVideoTask env_busy ''t1'' ''http://a.test/v.mp4'' state1))"
proof -
  let ?s2 = "snd (try_and_catch env_busy ''t1'' ''http://a.test/v.mp4'' state1)"
  have nn: "fst (try_and_catch env_busy ''t1'' ''http://a.test/v.mp4'' state1) \<noteq> Never"
    by (simp add: env_busy_run)
  have eq: "processVideoTask env_busy ''t1'' ''http://a.test/v.mp4'' state1 =
      (Ok (), snd (finally_block env_busy ''t1'' ?s2))"
    using process_eq [OF nn] by (simp add: env_busy_run)
  have st: "same_store ?s2 (snd (finally_block env_busy ''t1'' ?s2))" by (rule finally_same)
  have "''/tmp/t1_downloaded.mp4'' \<in> files (snd (finally_block env_busy ''t1'' ?s2))"
    by (rule finally_kept)
      (simp_all add: env_busy_run, simp add: env_busy_def env0_def config0_def chunkDir_of_def path_join_def under_def)
  with eq st show ?thesis
    by (simp add: same_store_def env_busy_run)
qed

text \<open>
  Claim C2, amended. Take a run of \<^verbatim>\<open>processVideoTask\<close> that exits, on whichever path: its
  try block ran to its end, or a stage or a write to the store threw (the routine returns
  unless a stage never settles). Then it returns normally and its finally block has run, in
  the state in which the try and catch blocks ended. Of the files that were not there
  before the run none is left afterwards, whether the downloaded video, the extracted
  audio, the chunk directory or a file below it, except a file at or below one of these
  three paths whose existence test or removal the file system has rejected. Nothing is
  said about the output file that a failed extraction has left behind.
\<close>

theorem cleanup_on_every_exit:
  assumes "fst (processVideoTask e taskId url s) \<noteq> Never"
  shows "fst (processVideoTask e taskId url s) = Ok () \<and>
         snd (processVideoTask e taskId url s) =
           snd (finally_block e taskId (snd (try_and_catch e taskId url s))) \<and>
         (\<forall>p. p \<in> files (snd (processVideoTask e taskId url s)) \<longrightarrow>
            p \<in> files s \<or>
            (\<exists>q. (q = tempFilePath_of e url taskId \<or> q = audioPath_of e url taskId \<or>
                  q = chunkDir_of e taskId) \<and>
                 under q p \<and> (exists_error e q \<noteq> None \<or> remove_error e q \<noteq> None)) \<or>
            (p = audioPath_of e url taskId \<and> extract_left e (tempFilePath_of e url taskId)))"
proof -
  let ?s2 = "snd (try_and_catch e taskId url s)"
  have nn: "fst (try_and_catch e taskId url s) \<noteq> Never"
    using assms process_never [of e taskId url s] by auto
  have eq: "snd (processVideoTask e taskId url s) = snd (finally_block e taskId ?s2)"
    using nn by (simp add: process_eq)
  have ok: "fst (processVideoTask e taskId url s) = Ok ()"
    using assms process_no_throw [of e taskId url s] by (cases "fst (processVideoTask e taskId url s)") auto
  have acc: "accounted e taskId url s ?s2" by (rule try_and_catch_accounted)
  show ?thesis
    using ok eq finally_accounted [OF acc] unfolding eq by blast
qed

text \<open>
  On the empty file system no file is left after the run in which every collaborator
  succeeds, nor after the run whose download runs into its timeout and which ends FAILED.
\<close>

theorem cleanup_on_every_exit_witness:
  "fst (processVideoTask env0 ''t1'' ''http://a.test/v.mp4'' state1) = Ok () \<and>
   files (snd (processVideoTask env0 ''t1'' ''http://a.test/v.mp4'' state1)) = {} \<and>
   fst (processVideoTask env_timeout ''t1'' ''http://a.test/v.mp4'' state1) = Ok () \<and>
   map_option status (tasks (snd (processVideoTask env_timeout ''t1'' ''http://a.test/v.mp4'' state1)) ''t1'') =
     Some FAILED \<and>
   files (snd (processVideoTask env_timeout ''t1'' ''http://a.test/v.mp4'' state1)) = {}"
proof -
  have h1: "fst (processVideoTask env0 ''t1'' ''http://a.test/v.mp4'' state1) \<noteq> Never"
    by (simp add: process_eq env0_run)
  have h2: "fst (processVideoTask env_timeout ''t1'' ''http://a.test/v.mp4'' state1) \<noteq> Never"
    by (simp add: process_eq env_timeout_run)
  have ok: "\<And>q. exists_error env0 q = None \<and> remove_error env0 q = None"
    "\<And>v. \<not> extract_left env0 v"
    "\<And>q. exists_error env_timeout q = None \<and> remove_error env_timeout q = None"
    "\<And>v. \<not> extract_left env_timeout v"
    "files state1 = {}"
    by (simp_all add: extract_left_def env_timeout_def env0_def state1_def state0_def)
  from cleanup_on_every_exit [OF h1] ok
  have a: "fst (processVideoTask env0 ''t1'' ''http://a.test/v.mp4'' state1) = Ok () \<and>
      files (snd (processVideoTask env0 ''t1'' ''http://a.test/v.mp4'' state1)) = {}"
    by auto
  from cleanup_on_every_exit [OF h2] ok
  have b: "fst (processVideoTask env_timeout ''t1'' ''http://a.test/v.mp4'' state1) = Ok () \<and>
      files (snd (processVideoTask env_timeout ''t1'' ''http://a.test/v.mp4'' state1)) = {}"
    by auto
  have "same_store (snd (try_and_catch env_timeout ''t1'' ''http://a.test/v.mp4'' state1))
      (snd (processVideoTask env_timeout ''t1'' ''http://a.test/v.mp4'' state1))"
    by (rule process_store) (simp add: env_timeout_run)
  then have c: "map_option status (tasks (snd (processVideoTask env_timeout ''t1'' ''http://a.test/v.mp4'' state1)) ''t1'') =
     Some FAILED"
    by (simp add: same_store_def env_timeout_run)
  from a b c show ?thesis by simp
qed

subsection \<open>C3: the persisted status only moves forward\<close>

text \<open>
  Claim C3. A task is created with status PENDING and processed by one run of
  \<^verbatim>\<open>processVideoTask\<close>. For every environment, the calls that this run makes to the store
  address the task only; each write that the store applies moves the persisted status one
  step forward along PENDING, DOWNLOADING, EXTRACTING_AUDIO, TRANSCRIBING, DONE, or to FAILED
  from a status that is not terminal; once DONE or FAILED has been written the run makes no
  further call to the store, applied or not (\<open>follows\<close>). The statuses the task has held
  are pairwise distinct, so no status is entered twice, and the status found in the store
  after the run is the last one written.
\<close>

theorem status_moves_forward:
  assumes "tasks s taskId = Some d" and "status d = PENDING"
  shows "follows taskId PENDING (run_calls s (snd (processVideoTask e taskId url s))) \<and>
         distinct (PENDING # applied (run_calls s (snd (processVideoTask e taskId url s)))) \<and>
         map_option status (tasks (snd (processVideoTask e taskId url s)) taskId) =
           Some (last (PENDING # applied (run_calls s (snd (processVideoTask e taskId url s)))))"
  using assms(1)
proof (cases rule: process_cases [where e = e and url = url])
  case (completed t s3)
  then show ?thesis
    by (simp add: finished_def run_calls_def stage_statuses_def forward_def)
next
  case (never k s3)
  from k_cases [OF never(3)] show ?thesis
    using never(1,4) assms
    by (elim disjE)
      (simp_all add: stopped_def run_calls_def stage_statuses_def numeral_2_eq_2 numeral_3_eq_3 forward_def)
next
  case (failed k rej m s3)
  from k_cases [OF failed(3)] show ?thesis
    using failed(1,4) assms
    by (elim disjE; cases rej; cases "store_error e FAILED = None")
      (simp_all add: failed_at_def stamp_def run_calls_def stage_statuses_def numeral_2_eq_2
        numeral_3_eq_3 forward_def)
qed

text \<open>
  In the environment in which every collaborator succeeds, the task \<open>''t1''\<close> passes through
  the four statuses after PENDING and ends DONE.
\<close>

theorem status_moves_forward_witness:
  "follows ''t1'' PENDING
     (run_calls state1 (snd (processVideoTask env0 ''t1'' ''http://a.test/v.mp4'' state1))) \<and>
   applied (run_calls state1 (snd (processVideoTask env0 ''t1'' ''http://a.test/v.mp4'' state1))) =
     [DOWNLOADING, EXTRACTING_AUDIO, TRANSCRIBING, DONE] \<and>
   map_option status (tasks (snd (processVideoTask env0 ''t1'' ''http://a.test/v.mp4'' state1)) ''t1'') =
     Some DONE"
proof -
  have h1: "tasks state1 ''t1'' = Some (task1)"
    by (simp add: state1_def state0_def)
  have h2: "status (task1) = PENDING"
    by (simp add: task1_def)
  have "same_store (snd (try_and_catch env0 ''t1'' ''http://a.test/v.mp4'' state1))
      (snd (processVideoTask env0 ''t1'' ''http://a.test/v.mp4'' state1))"
    by (rule process_store) (simp add: env0_run)
  then have "run_calls state1 (snd (processVideoTask env0 ''t1'' ''http://a.test/v.mp4'' state1)) =
      [Update ''t1'' DOWNLOADING Applied, Update ''t1'' EXTRACTING_AUDIO Applied,
       Update ''t1'' TRANSCRIBING Applied, Update ''t1'' DONE Applied]"
    by (simp add: same_store_def run_calls_def env0_run) (simp add: store_calls_def state1_def state0_def)
  with status_moves_forward [OF h1 h2, of env0 "''http://a.test/v.mp4''"] show ?thesis
    by simp
qed

subsection \<open>C4: what a run without failure stores\<close>

text \<open>
  Claim C4 says that after a run in which every stage succeeds the task holds the combined
  transcript as its payload. In the run below every stage succeeds: the try block of
  \<^verbatim>\<open>processVideoTask\<close> runs to its end, \<^verbatim>\<open>transcribeAudio\<close> returns \<open>''hello''\<close> for the chunk
  of the task, and the task ends with status DONE and \<^verbatim>\<open>errorMessage\<close> \<^verbatim>\<open>null\<close>. Its payload
  is \<^verbatim>\<open>null\<close> all the same. The DONE update carries the transcript under the key
  \<^verbatim>\<open>transcript\<close>; the schema of models/Task.js declares the payload as \<^verbatim>\<open>text\<close> and has no
  path \<^verbatim>\<open>transcript\<close>, so the update drops the key.
\<close>

theorem success_stores_no_transcript:
  "fst (try_block env0 ''t1'' ''http://a.test/v.mp4'' (entry state1)) = Ok () \<and>
   audioChunkPaths (snd (processVideoTask env0 ''t1'' ''http://a.test/v.mp4'' state1)) =
     [''/tmp/t1_chunks/chunk_000.mp3''] \<and>
   fst (transcribeAudio env0 [''/tmp/t1_chunks/chunk_000.mp3''] state1) = Ok ''hello'' \<and>
   fst (processVideoTask env0 ''t1'' ''http://a.test/v.mp4'' state1) = Ok () \<and>
   tasks (snd (processVideoTask env0 ''t1'' ''http://a.test/v.mp4'' state1)) ''t1'' =
     Some \<lparr>task_id = ''t1'', task_url = Some ''http://a.test/v.mp4'', status = DONE,
           task_text = None, errorMessage = None, createdAt = 7, updatedAt = 7\<rparr>"
proof -
  have h1: "tasks state1 ''t1'' = Some task1"
    by (simp add: state1_def state0_def)
  have h2: "fst (try_block env0 ''t1'' ''http://a.test/v.mp4'' (entry state1)) = Ok ()"
    by (simp add: eval_defs)
  have h3: "audioChunkPaths (snd (try_and_catch env0 ''t1'' ''http://a.test/v.mp4'' state1)) =
      [''/tmp/t1_chunks/chunk_000.mp3'']"
    by (simp add: eval_defs)
  have "same_store (snd (try_and_catch env0 ''t1'' ''http://a.test/v.mp4'' state1))
      (snd (processVideoTask env0 ''t1'' ''http://a.test/v.mp4'' state1))"
    by (rule process_store) (simp add: env0_run)
  then have h4: "audioChunkPaths (snd (processVideoTask env0 ''t1'' ''http://a.test/v.mp4'' state1)) =
      [''/tmp/t1_chunks/chunk_000.mp3'']"
    using h3 by (simp add: same_store_def)
  have h5: "fst (transcribeAudio env0 [''/tmp/t1_chunks/chunk_000.mp3''] state1) = Ok ''hello''"
    by (simp add: transcribeAudio_result key_missing_def joined_def spaced_def chunk_text_def skipped_def
        size_limit_def trim_eval env0_def config0_def)
  have h6: "fst (processVideoTask env0 ''t1'' ''http://a.test/v.mp4'' state1) = Ok ()"
    using process_eq [of env0 "''t1''" "''http://a.test/v.mp4''" state1] by (simp add: env0_run)
  have h7: "tasks (snd (processVideoTask env0 ''t1'' ''http://a.test/v.mp4'' state1)) ''t1'' =
      Some (task1\<lparr>status := DONE, errorMessage := None, updatedAt := now state1\<rparr>)"
    using h1 h2 by (rule completed_run_document)
  from h2 h4 h5 h6 h7 show ?thesis
    by (simp add: task1_def state1_def state0_def)
qed

section \<open>Claims about the submission handler\<close>

subsection \<open>C5: what submitTask answers\<close>

text \<open>
  A body without \<^verbatim>\<open>videoUrl\<close> (or with an empty one) and a \<^verbatim>\<open>videoUrl\<close> that is no URL are
  answered with 400, and the store is left as it is.
\<close>

lemma submitTask_rejects:
  "submitTask e None s =
     (Ok (\<lparr>code = 400, body = Message ''Missing videoUrl in request body''\<rparr>, None), s)"
  "submitTask e (Some []) s =
     (Ok (\<lparr>code = 400, body = Message ''Missing videoUrl in request body''\<rparr>, None), s)"
  "url \<noteq> [] \<Longrightarrow> url_pathname e url = None \<Longrightarrow>
   submitTask e (Some url) s =
     (Ok (\<lparr>code = 400, body = Message ''Invalid videoUrl format''\<rparr>, None), s)"
  by (simp_all add: submitTask_def prog_defs)

text \<open>
  The document that the handler builds from \<^verbatim>\<open>{ videoUrl }\<close> has the defaults of the schema
  and no \<^verbatim>\<open>url\<close>: the key \<^verbatim>\<open>videoUrl\<close> is not a path of the schema. Its validation fails, so
  every request with a parseable \<^verbatim>\<open>videoUrl\<close> is answered with 500, whatever the store does.
\<close>

lemma new_Task_videoUrl:
  "new_Task e [(''videoUrl'', JStr url)] t =
     \<lparr>task_id = uuidv4 e, task_url = None, status = PENDING, task_text = None,
      errorMessage = None, createdAt = t, updatedAt = t\<rparr>"
  by (simp add: new_Task_def strict_def schema_paths_def)

lemma submitTask_parseable_url:
  "url \<noteq> [] \<Longrightarrow> url_pathname e url \<noteq> None \<Longrightarrow>
   submitTask e (Some url) s =
     (Ok (\<lparr>code = 500, body = Message ''Failed to create processing task.''\<rparr>, None), s)"
  by (simp add: submitTask_def save_def validation_error_def new_Task_videoUrl prog_defs)

text \<open>
  Claim C5 says that a request with a parseable \<^verbatim>\<open>videoUrl\<close> creates a task with status
  PENDING and is answered with its id. For the request below, on an empty store that
  accepts every write, the handler builds a PENDING document without \<^verbatim>\<open>url\<close>, which the
  schema of models/Task.js requires; \<^verbatim>\<open>save\<close> rejects it, and the handler answers 500 with
  the message \<^verbatim>\<open>Failed to create processing task.\<close>, creates no task and starts no
  processing.
\<close>

theorem submitTask_answers_500:
  "new_Task env0 [(''videoUrl'', JStr ''http://a.test/v.mp4'')] (now state0) =
     \<lparr>task_id = ''t1'', task_url = None, status = PENDING, task_text = None,
      errorMessage = None, createdAt = 7, updatedAt = 7\<rparr> \<and>
   fst (save env0 (new_Task env0 [(''videoUrl'', JStr ''http://a.test/v.mp4'')] (now state0)) state0) =
     Throw ''Task validation failed: url: Path `url` is required.'' \<and>
   submitTask env0 (Some ''http://a.test/v.mp4'') state0 =
     (Ok (\<lparr>code = 500, body = Message ''Failed to create processing task.''\<rparr>, None), state0)"
  by (simp add: submitTask_def save_def validation_error_def new_Task_videoUrl prog_defs
      env0_def state0_def)

section \<open>Claims about the transcription stage\<close>

subsection \<open>C6: skip and continue\<close>

text \<open>
  Claim C6 says that for every list of chunk paths \<^verbatim>\<open>transcribeAudio\<close> returns the
  concatenation of the transcripts of the chunks it does not skip. The function starts with
  a guard on the API key: when the key is the empty string (the variable \<^verbatim>\<open>GROQ_API_KEY\<close>
  is set to nothing) it throws before it looks at any chunk, also for a list whose only
  chunk is fine.
\<close>

theorem transcribeAudio_empty_key_counterexample:
  "groqApiKey (cfg env_empty_key) = [] \<and>
   \<not> skipped env_empty_key ''/tmp/t1_chunks/chunk_000.mp3'' \<and>
   fst (transcribeAudio env_empty_key [''/tmp/t1_chunks/chunk_000.mp3''] state0) =
     Throw ''Transcription failed: Groq API Key is not configured.''"
  by (simp add: transcribeAudio_def key_missing_def raise_def skipped_def size_limit_def
      env_empty_key_def env0_def config0_def)

text \<open>
  Claim C6, amended. When the API key is not empty, for every list of chunk paths: a
  chunk whose size is at or above the limit of 25 MB or zero (or cannot be read), or whose
  transcription request throws, is skipped, and \<^verbatim>\<open>transcribeAudio\<close> returns the transcripts
  of the remaining chunks in order, each one that is not empty followed by a space, with
  the white space at both ends of the whole stripped by \<^verbatim>\<open>trim\<close>. When the key is the empty
  string, it throws \<^verbatim>\<open>Transcription failed: Groq API Key is not configured.\<close>
\<close>

theorem transcribeAudio_skips_and_continues:
  "fst (transcribeAudio e chunkPaths s) =
     (if key_missing e then Throw ''Transcription failed: Groq API Key is not configured.''
      else Ok (trim (concat (map (\<lambda>p. spaced (chunk_text e p))
                              (filter (\<lambda>p. \<not> skipped e p) chunkPaths)))))"
  by (simp add: transcribeAudio_result joined_def)

text \<open>Three chunks of which the second is at the size limit.\<close>

theorem transcribeAudio_skips_witness:
  "fst (transcribeAudio env_three_chunks [''a'', ''b'', ''c''] state0) = Ok ''hello world''"
proof -
  have "\<not> key_missing env_three_chunks"
    by (simp add: key_missing_def env_three_chunks_def env0_def config0_def)
  moreover have "filter (\<lambda>p. \<not> skipped env_three_chunks p) [''a'', ''b'', ''c''] = [''a'', ''c'']"
    by (simp add: skipped_def env_three_chunks_def size_limit_def)
  moreover have "spaced (chunk_text env_three_chunks ''a'') = ''hello ''"
    "spaced (chunk_text env_three_chunks ''c'') = ''world ''"
    by (simp_all add: spaced_def chunk_text_def env_three_chunks_def)
  ultimately show ?thesis
    using transcribeAudio_skips_and_continues [of env_three_chunks "[''a'', ''b'', ''c'']" state0]
    by (simp add: trim_eval)
qed

section \<open>Claims about outbound calls\<close>

subsection \<open>C7: timeouts of outbound calls\<close>

text \<open>
  Claim C7 says that every outbound call of the pipeline carries an explicit timeout and
  that a call that times out fails its stage. The run below issues the transcription
  request for its chunk with the two options \<^verbatim>\<open>file\<close> and \<^verbatim>\<open>model\<close> and no timeout; the
  request times out, and the run ends normally with the task DONE, not FAILED: the stage
  skipped the chunk.
\<close>

theorem transcription_timeout_counterexample:
  "GroqRequest [(''file'', Str ''/tmp/t1_chunks/chunk_000.mp3''), (''model'', Str ''whisper-large-v3'')] \<in>
     set (trace (snd (try_and_catch env_groq_timeout ''t1'' ''http://a.test/v.mp4'' state1))) \<and>
   map_of [(''file'', Str ''/tmp/t1_chunks/chunk_000.mp3''), (''model'', Str ''whisper-large-v3'')] ''timeout'' =
     None \<and>
   groq_create env_groq_timeout ''/tmp/t1_chunks/chunk_000.mp3'' = Inl ''Request timed out.'' \<and>
   fst (processVideoTask env_groq_timeout ''t1'' ''http://a.test/v.mp4'' state1) = Ok () \<and>
   map_option status (tasks (snd (processVideoTask env_groq_timeout ''t1'' ''http://a.test/v.mp4'' state1)) ''t1'') =
     Some DONE"
proof -
  have nn: "fst (try_and_catch env_groq_timeout ''t1'' ''http://a.test/v.mp4'' state1) \<noteq> Never"
    by (simp add: env_groq_timeout_run)
  have "same_store (snd (try_and_catch env_groq_timeout ''t1'' ''http://a.test/v.mp4'' state1))
      (snd (processVideoTask env_groq_timeout ''t1'' ''http://a.test/v.mp4'' state1))"
    using nn by (rule process_store)
  then show ?thesis
    using process_eq [OF nn]
    by (simp add: same_store_def env_groq_timeout_run) (simp add: env_groq_timeout_def)
qed

text \<open>
  Claim C7, amended. The content download passes the configured download timeout to the
  HTTP client: \<^verbatim>\<open>downloadVideoFromUrl\<close> issues one request, whose option \<^verbatim>\<open>timeout\<close> is
  \<^verbatim>\<open>config.downloadTimeout\<close>. A download that times out, before the response or in the
  stream of its body, rejects, and the task is then marked FAILED with the message of the
  rejection, provided the store applies the DOWNLOADING and the FAILED write. The
  transcription request has no option \<^verbatim>\<open>timeout\<close>, and a transcription request that throws,
  by timing out or otherwise, does not fail its stage: the chunk is skipped.
\<close>

theorem download_timeout_fails_task:
  "trace (snd (downloadVideoFromUrl e url taskId s)) = trace s @ [AxiosRequest (download_options e url)] \<and>
   map_of (download_options e url) ''timeout'' = Some (Num (downloadTimeout (cfg e))) \<and>
   (\<forall>msg. timeout_message (axios e url) = Some msg \<longrightarrow>
      fst (downloadVideoFromUrl e url taskId s) = Throw msg \<and>
      (\<forall>d. tasks s taskId = Some d \<and> store_error e DOWNLOADING = None \<and> store_error e FAILED = None \<longrightarrow>
         fst (processVideoTask e taskId url s) = Ok () \<and>
         (\<exists>d'. tasks (snd (processVideoTask e taskId url s)) taskId = Some d' \<and> status d' = FAILED \<and>
               errorMessage d' = Some (''Task failed: '' @ msg)))) \<and>
   (\<forall>chunkPath. map_of (transcription_options chunkPath) ''timeout'' = None) \<and>
   (\<forall>chunkPath m acc. groq_create e chunkPath = Inl m \<longrightarrow>
      fst (transcribe_chunk e chunkPath acc s) = Ok acc)"
proof -
  have run: "fst (processVideoTask e taskId url s) = Ok () \<and>
         (\<exists>d'. tasks (snd (processVideoTask e taskId url s)) taskId = Some d' \<and> status d' = FAILED \<and>
               errorMessage d' = Some (''Task failed: '' @ msg))"
    if ax: "timeout_message (axios e url) = Some msg" and d: "tasks s taskId = Some d"
      and s1: "store_error e DOWNLOADING = None" and s2: "store_error e FAILED = None" for msg d
  proof -
    have de: "tasks (entry s) taskId = Some d" using d by (simp add: entry_def)
    have tb: "fst (try_block e taskId url (entry s)) = Throw msg"
      using de s1 by (rule download_throw_escapes) (rule download_timed_out_rejects [OF ax])
    from d show ?thesis
    proof (cases rule: process_cases [where e = e and url = url])
      case (completed t s3)
      with tb show ?thesis by simp
    next
      case (never k s3)
      with tb show ?thesis by simp
    next
      case (failed k rej m' s3)
      with tb have "m' = msg" by simp
      with failed(1,4) s2 show ?thesis by (simp add: failed_at_def)
    qed
  qed
  show ?thesis
    using run
    by (simp add: download_trace download_options_def transcription_options_def
        download_timed_out_rejects failed_request_skipped)
qed

text \<open>
  The task \<open>''t1''\<close> with a download that runs into the timeout of 120000 ms, before the
  response and in the stream.
\<close>

theorem download_timeout_witness:
  "map_of (download_options env_timeout ''http://a.test/v.mp4'') ''timeout'' = Some (Num 120000) \<and>
   fst (downloadVideoFromUrl env_timeout ''http://a.test/v.mp4'' ''t1'' state1) =
     Throw ''Download failed: No response received from server.'' \<and>
   fst (processVideoTask env_timeout ''t1'' ''http://a.test/v.mp4'' state1) = Ok () \<and>
   (\<exists>d'. tasks (snd (processVideoTask env_timeout ''t1'' ''http://a.test/v.mp4'' state1)) ''t1'' = Some d' \<and>
      status d' = FAILED \<and>
      errorMessage d' = Some ''Task failed: Download failed: No response received from server.'') \<and>
   fst (downloadVideoFromUrl env_stream_timeout ''http://a.test/v.mp4'' ''t1'' state1) =
     Throw ''Download stream error: timeout of 120000ms exceeded'' \<and>
   fst (processVideoTask env_stream_timeout ''t1'' ''http://a.test/v.mp4'' state1) = Ok () \<and>
   (\<exists>d'. tasks (snd (processVideoTask env_stream_timeout ''t1'' ''http://a.test/v.mp4'' state1)) ''t1'' = Some d' \<and>
      status d' = FAILED \<and>
      errorMessage d' = Some ''Task failed: Download stream error: timeout of 120000ms exceeded'')"
proof -
  have h: "timeout_message (axios env_timeout ''http://a.test/v.mp4'') =
      Some ''Download failed: No response received from server.''"
    "tasks state1 ''t1'' = Some task1"
    "store_error env_timeout DOWNLOADING = None" "store_error env_timeout FAILED = None"
    "downloadTimeout (cfg env_timeout) = 120000"
    by (simp_all add: timeout_message_def env_timeout_def env0_def config0_def state1_def state0_def)
  have g: "timeout_message (axios env_stream_timeout ''http://a.test/v.mp4'') =
      Some ''Download stream error: timeout of 120000ms exceeded''"
    "store_error env_stream_timeout DOWNLOADING = None" "store_error env_stream_timeout FAILED = None"
    by (simp_all add: timeout_message_def env_stream_timeout_def env0_def)
  from download_timeout_fails_task [of env_timeout "''http://a.test/v.mp4''" "''t1''" state1] h
  have a: "map_of (download_options env_timeout ''http://a.test/v.mp4'') ''timeout'' = Some (Num 120000) \<and>
   fst (downloadVideoFromUrl env_timeout ''http://a.test/v.mp4'' ''t1'' state1) =
     Throw ''Download failed: No response received from server.'' \<and>
   fst (processVideoTask env_timeout ''t1'' ''http://a.test/v.mp4'' state1) = Ok () \<and>
   (\<exists>d'. tasks (snd (processVideoTask env_timeout ''t1'' ''http://a.test/v.mp4'' state1)) ''t1'' = Some d' \<and>
      status d' = FAILED \<and>
      errorMessage d' = Some ''Task failed: Download failed: No response received from server.'')"
    by simp
  from download_timeout_fails_task [of env_stream_timeout "''http://a.test/v.mp4''" "''t1''" state1] g h(2)
  have b: "fst (downloadVideoFromUrl env_stream_timeout ''http://a.test/v.mp4'' ''t1'' state1) =
     Throw ''Download stream error: timeout of 120000ms exceeded'' \<and>
   fst (processVideoTask env_stream_timeout ''t1'' ''http://a.test/v.mp4'' state1) = Ok () \<and>
   (\<exists>d'. tasks (snd (processVideoTask env_stream_timeout ''t1'' ''http://a.test/v.mp4'' state1)) ''t1'' = Some d' \<and>
      status d' = FAILED \<and>
      errorMessage d' = Some ''Task failed: Download stream error: timeout of 120000ms exceeded'')"
    by simp
  from a b show ?thesis by simp
qed

section \<open>Claims about the agent registry\<close>

subsection \<open>C8: registering a url twice\<close>

text \<open>
  Claim C8. Take a registry whose records have pairwise distinct urls, and two calls of
  \<^verbatim>\<open>register\<close> with the same url, one after the other, that both return a record. Then
  the list of agents holds exactly one record for the normalised url, the record the second
  call returned: its card is the validated descriptor of the second fetch, its
  \<^verbatim>\<open>lastRefreshedAt\<close> is the time of the second call, and its \<^verbatim>\<open>registeredAt\<close> is that of
  the record the first call returned. The second call has added no record: the urls of the
  list are those after the first call, still pairwise distinct.
\<close>

theorem register_twice_one_record:
  assumes "distinct (map agent_url reg)"
    and "register fetch1 norm t1 u reg = Inr (r1, reg1)"
    and "register fetch2 norm t2 u reg1 = Inr (r2, reg2)"
  shows "filter (\<lambda>r. agent_url r = norm u) (list_agents reg2) = [r2] \<and>
         (\<exists>dsc. fetch2 u = Fetched dsc \<and> validate dsc = Some (card r2)) \<and>
         lastRefreshedAt r2 = t2 \<and>
         registeredAt r2 = registeredAt r1 \<and>
         map agent_url (list_agents reg2) = map agent_url (list_agents reg1) \<and>
         distinct (map agent_url (list_agents reg2))"
proof -
  from register_Inr [OF assms(2)] obtain dsc1 c1 where
    a1: "fetch1 u = Fetched dsc1" "validate dsc1 = Some c1" "reg1 = upsert (norm u) c1 t1 reg"
      "get_agent (norm u) reg1 = Inr r1" by blast
  from register_Inr [OF assms(3)] obtain dsc2 c2 where
    a2: "fetch2 u = Fetched dsc2" "validate dsc2 = Some c2" "reg2 = upsert (norm u) c2 t2 reg1"
      "get_agent (norm u) reg2 = Inr r2" by blast
  have d1: "distinct (map agent_url reg1)" using assms(1) a1(3) by (simp add: upsert_distinct)
  then have d2: "distinct (map agent_url reg2)" using a2(3) by (simp add: upsert_distinct)
  have known: "norm u \<in> set (map agent_url reg1)" using a1(4) by (rule get_agent_known)
  from get_upsert [of "norm u" c2 t2 reg1] a2(3,4) a1(4)
  have r2: "card r2 = c2" "lastRefreshedAt r2 = t2" "registeredAt r2 = registeredAt r1"
    by auto
  have "filter (\<lambda>r. agent_url r = norm u) reg2 = [r2]"
    using d2 a2(4) by (rule get_agent_filter)
  moreover have "map agent_url reg2 = map agent_url reg1"
    using known a2(3) by (simp add: upsert_urls)
  ultimately show ?thesis
    using d2 r2 a2(1,2) by (simp add: list_agents_def)
qed

text \<open>
  Scenario C of the specification: \<^verbatim>\<open>http://a.test\<close> registered twice, with descriptors
  of version 1.0.0 and then 2.0.0, on the empty registry.
\<close>

theorem register_twice_witness:
  "\<exists>r1 reg1 r2 reg2.
     register (\<lambda>u. Fetched (descriptor_v ''1.0.0'')) strip_slash 1 ''http://a.test'' [] = Inr (r1, reg1) \<and>
     register (\<lambda>u. Fetched (descriptor_v ''2.0.0'')) strip_slash 2 ''http://a.test'' reg1 = Inr (r2, reg2) \<and>
     list_agents reg2 = [r2] \<and> card_version (card r2) = ''2.0.0'' \<and>
     registeredAt r2 = 1 \<and> lastRefreshedAt r2 = 2"
proof -
  let ?c1 = "\<lparr>card_name = ''Summarizer'', card_description = ''Summarizes documents'',
     card_url = ''http://a.test'', card_version = ''1.0.0'', card_skills = [], card_provider = ''UniTN''\<rparr>"
  let ?c2 = "\<lparr>card_name = ''Summarizer'', card_description = ''Summarizes documents'',
     card_url = ''http://a.test'', card_version = ''2.0.0'', card_skills = [], card_provider = ''UniTN''\<rparr>"
  let ?r1 = "\<lparr>agent_url = ''http://a.test'', card = ?c1, registeredAt = 1, lastRefreshedAt = 1\<rparr>"
  let ?r2 = "\<lparr>agent_url = ''http://a.test'', card = ?c2, registeredAt = 1, lastRefreshedAt = 2\<rparr>"
  have n: "strip_slash ''http://a.test'' = ''http://a.test''" by (simp add: strip_slash_def)
  have h0: "distinct (map agent_url [])" by simp
  have h1: "register (\<lambda>u. Fetched (descriptor_v ''1.0.0'')) strip_slash 1 ''http://a.test'' [] = Inr (?r1, [?r1])"
    by (simp add: register_def validate_def descriptor_v_def n)
  have h2: "register (\<lambda>u. Fetched (descriptor_v ''2.0.0'')) strip_slash 2 ''http://a.test'' [?r1] = Inr (?r2, [?r2])"
    by (simp add: register_def validate_def descriptor_v_def n)
  from register_twice_one_record [OF h0 h1 h2] have "filter (\<lambda>r. agent_url r = ''http://a.test'') (list_agents [?r2]) = [?r2]"
    by (simp add: n)
  with h1 h2 show ?thesis
    by (intro exI [of _ ?r1] exI [of _ "[?r1]"] exI [of _ ?r2] exI [of _ "[?r2]"]) (simp add: list_agents_def)
qed

subsection \<open>C9: when every chunk is skipped\<close>

text \<open>
  Take a run on a task of the store that reaches the transcription (its TRANSCRIBING write
  is applied), with the API key configured. If every chunk of the list that the run passes
  to \<^verbatim>\<open>transcribeAudio\<close> (the variable \<^verbatim>\<open>audioChunkPaths\<close>) is skipped, then
  \<^verbatim>\<open>transcribeAudio\<close> returns the empty string, on which the guard for \<^verbatim>\<open>null\<close> and
  \<^verbatim>\<open>undefined\<close> does not throw; the run returns normally and, the store applying the DONE
  write, the task is persisted with status DONE and no \<^verbatim>\<open>errorMessage\<close>: it is not marked
  FAILED. The path \<^verbatim>\<open>text\<close> of the document is as it was.
\<close>

lemma all_chunks_skipped_run:
  assumes "tasks s taskId = Some d"
    and "Update taskId TRANSCRIBING Applied \<in> set (run_calls s (snd (processVideoTask e taskId url s)))"
    and "\<not> key_missing e"
    and "\<forall>p \<in> set (audioChunkPaths (snd (processVideoTask e taskId url s))). skipped e p"
    and "store_error e DONE = None"
  shows "(\<forall>sx. fst (transcribeAudio e (audioChunkPaths (snd (processVideoTask e taskId url s))) sx) = Ok []) \<and>
         (\<forall>sx. fst (transcript_guard (Some []) sx) = Ok ()) \<and>
         fst (processVideoTask e taskId url s) = Ok () \<and>
         (\<exists>d'. tasks (snd (processVideoTask e taskId url s)) taskId = Some d' \<and>
               status d' = DONE \<and> task_text d' = task_text d \<and> errorMessage d' = None)"
proof -
  have tr: "\<And>sx. fst (transcribeAudio e (audioChunkPaths (snd (processVideoTask e taskId url s))) sx) = Ok []"
    using assms(3,4) by (simp add: transcribeAudio_result joined_all_skipped trim_Nil)
  have gd: "\<And>sx. fst (transcript_guard (Some []) sx) = Ok ()"
    by (simp add: transcript_guard_def ret_def)
  from assms(1) have "fst (processVideoTask e taskId url s) = Ok () \<and>
         (\<exists>d'. tasks (snd (processVideoTask e taskId url s)) taskId = Some d' \<and>
               status d' = DONE \<and> task_text d' = task_text d \<and> errorMessage d' = None)"
  proof (cases rule: process_cases [where e = e and url = url])
    case (completed t s3)
    have "t = []" using completed(1,5) tr by (auto simp: transcription_gives_def)
    with completed show ?thesis by (simp add: finished_def)
  next
    case (never k s3)
    from k_cases [OF never(3)] have "k = 3"
      using assms(2) never(1,4)
      by (elim disjE) (simp_all add: stopped_def run_calls_def stage_statuses_def numeral_2_eq_2)
    with never(5) have "transcription_fails e (audioChunkPaths s3)" by simp
    with tr never(1) show ?thesis by (auto simp: transcription_fails_def)
  next
    case (failed k rej m s3)
    from k_cases [OF failed(3)] have k3: "k = 3"
      using assms(2) failed(1,4)
      by (elim disjE; cases rej; cases "store_error e FAILED = None")
        (simp_all add: failed_at_def run_calls_def stage_statuses_def numeral_2_eq_2)
    have "\<not> rej" using failed(6) k3 assms(5) by (auto simp: stage_statuses_def)
    with failed(7) k3 have "transcription_fails e (audioChunkPaths s3)" by simp
    with tr failed(1) show ?thesis by (auto simp: transcription_fails_def)
  qed
  with tr gd show ?thesis by blast
qed

text \<open>
  Claim C9 says that the task is then persisted as DONE with an empty transcript. In the
  run below the one chunk has size zero and is skipped: \<^verbatim>\<open>transcribeAudio\<close> returns the
  empty string, the guard does not throw, the DONE write is applied and the task ends DONE
  and not FAILED, as the claim says. The empty string is passed under the key
  \<^verbatim>\<open>transcript\<close>, which the schema of models/Task.js does not declare, so it is not stored:
  the payload of the document stays \<^verbatim>\<open>null\<close>.
\<close>

theorem all_chunks_skipped_stores_null:
  "audioChunkPaths (snd (processVideoTask env_empty_chunks ''t1'' ''http://a.test/v.mp4'' state1)) =
     [''/tmp/t1_chunks/chunk_000.mp3''] \<and>
   skipped env_empty_chunks ''/tmp/t1_chunks/chunk_000.mp3'' \<and>
   fst (transcribeAudio env_empty_chunks [''/tmp/t1_chunks/chunk_000.mp3''] state1) = Ok [] \<and>
   fst (processVideoTask env_empty_chunks ''t1'' ''http://a.test/v.mp4'' state1) = Ok () \<and>
   tasks (snd (processVideoTask env_empty_chunks ''t1'' ''http://a.test/v.mp4'' state1)) ''t1'' =
     Some \<lparr>task_id = ''t1'', task_url = Some ''http://a.test/v.mp4'', status = DONE,
           task_text = None, errorMessage = None, createdAt = 7, updatedAt = 7\<rparr>"
proof -
  have h1: "tasks state1 ''t1'' = Some task1"
    by (simp add: state1_def state0_def)
  have h2: "fst (try_block env_empty_chunks ''t1'' ''http://a.test/v.mp4'' (entry state1)) = Ok ()"
    by (simp add: eval_defs env_empty_chunks_def)
  have h3: "audioChunkPaths (snd (try_and_catch env_empty_chunks ''t1'' ''http://a.test/v.mp4'' state1)) =
      [''/tmp/t1_chunks/chunk_000.mp3'']"
    by (simp add: eval_defs env_empty_chunks_def)
  have "same_store (snd (try_and_catch env_empty_chunks ''t1'' ''http://a.test/v.mp4'' state1))
      (snd (processVideoTask env_empty_chunks ''t1'' ''http://a.test/v.mp4'' state1))"
    by (rule process_store) (simp add: env_empty_chunks_run)
  then have h4: "audioChunkPaths (snd (processVideoTask env_empty_chunks ''t1'' ''http://a.test/v.mp4'' state1)) =
      [''/tmp/t1_chunks/chunk_000.mp3'']"
    using h3 by (simp add: same_store_def)
  have h5: "skipped env_empty_chunks ''/tmp/t1_chunks/chunk_000.mp3''"
    by (simp add: skipped_def env_empty_chunks_def)
  have h6: "fst (transcribeAudio env_empty_chunks [''/tmp/t1_chunks/chunk_000.mp3''] state1) = Ok []"
    using h5 by (simp add: transcribeAudio_result key_missing_def joined_def trim_Nil
        env_empty_chunks_def env0_def config0_def)
  have h7: "fst (processVideoTask env_empty_chunks ''t1'' ''http://a.test/v.mp4'' state1) = Ok ()"
    using process_eq [of env_empty_chunks "''t1''" "''http://a.test/v.mp4''" state1]
    by (simp add: env_empty_chunks_run)
  have h8: "tasks (snd (processVideoTask env_empty_chunks ''t1'' ''http://a.test/v.mp4'' state1)) ''t1'' =
      Some (task1\<lparr>status := DONE, errorMessage := None, updatedAt := now state1\<rparr>)"
    using h1 h2 by (rule completed_run_document)
  from h4 h5 h6 h7 h8 show ?thesis
    by (simp add: task1_def state1_def state0_def)
qed

subsection \<open>C10: the cleanup routines never throw\<close>

text \<open>
  Claim C10. For every environment, every state and every list of paths, \<^verbatim>\<open>null\<close> and the
  empty string among them: \<^verbatim>\<open>cleanupFiles\<close> and \<^verbatim>\<open>cleanupChunks\<close> return normally, and so
  does the finally block of \<^verbatim>\<open>processVideoTask\<close>, which leaves the task documents as they
  are; the routine as a whole never ends in an exception. Paths that do not exist are
  no-ops: when none of the paths exists (and the existence test does not reject), the state
  after \<^verbatim>\<open>cleanupFiles\<close> is the state before, and likewise for the chunk directory. An error
  of the existence test or of the removal is caught and reported with \<^verbatim>\<open>console.error\<close>:
  the routine returns normally, the report is the one event it adds, and no file is added
  (a removal that rejects may have deleted files below its path).
\<close>

theorem cleanup_never_throws:
  "fst (cleanupFiles e filePaths s) = Ok () \<and>
   fst (cleanupChunks e taskId s) = Ok () \<and>
   fst (finally_block e taskId s) = Ok () \<and>
   tasks (snd (finally_block e taskId s)) = tasks s \<and>
   (\<forall>m. fst (processVideoTask e taskId url s) \<noteq> Throw m) \<and>
   ((\<forall>p. Some p \<in> set filePaths \<longrightarrow> p \<notin> files s \<and> exists_error e p = None) \<longrightarrow>
      snd (cleanupFiles e filePaths s) = s) \<and>
   (chunkDir_of e taskId \<notin> files s \<and> exists_error e (chunkDir_of e taskId) = None \<longrightarrow>
      snd (cleanupChunks e taskId s) = s) \<and>
   (\<forall>p m. p \<noteq> [] \<and> (exists_error e p = Some m \<or>
              (exists_error e p = None \<and> p \<in> files s \<and> remove_error e p = Some m)) \<longrightarrow>
      trace (snd (cleanupFiles e [Some p] s)) =
        trace s @ [ConsoleError (''Error cleaning up file '' @ p @ '': '' @ m)] \<and>
      tasks (snd (cleanupFiles e [Some p] s)) = tasks s \<and>
      files (snd (cleanupFiles e [Some p] s)) \<subseteq> files s) \<and>
   (\<forall>m. exists_error e (chunkDir_of e taskId) = Some m \<or>
          (exists_error e (chunkDir_of e taskId) = None \<and> chunkDir_of e taskId \<in> files s \<and>
           remove_error e (chunkDir_of e taskId) = Some m) \<longrightarrow>
      trace (snd (cleanupChunks e taskId s)) =
        trace s @
          [ConsoleError (''Error cleaning up chunk directory '' @ chunkDir_of e taskId @ '': '' @ m)] \<and>
      tasks (snd (cleanupChunks e taskId s)) = tasks s \<and>
      files (snd (cleanupChunks e taskId s)) \<subseteq> files s)"
proof -
  have f4: "tasks (snd (finally_block e taskId s)) = tasks s"
    using finally_same [of s e taskId] by (simp add: same_store_def)
  have f6: "(\<forall>p. Some p \<in> set filePaths \<longrightarrow> p \<notin> files s \<and> exists_error e p = None) \<longrightarrow>
      snd (cleanupFiles e filePaths s) = s"
    by (simp add: cleanupFiles_missing)
  have f7: "chunkDir_of e taskId \<notin> files s \<and> exists_error e (chunkDir_of e taskId) = None \<longrightarrow>
      snd (cleanupChunks e taskId s) = s"
    by (simp add: cleanupChunks_missing)
  have f8: "\<forall>p m. p \<noteq> [] \<and> (exists_error e p = Some m \<or>
              (exists_error e p = None \<and> p \<in> files s \<and> remove_error e p = Some m)) \<longrightarrow>
      trace (snd (cleanupFiles e [Some p] s)) =
        trace s @ [ConsoleError (''Error cleaning up file '' @ p @ '': '' @ m)] \<and>
      tasks (snd (cleanupFiles e [Some p] s)) = tasks s \<and>
      files (snd (cleanupFiles e [Some p] s)) \<subseteq> files s"
  proof (intro allI impI)
    fix p m
    assume a: "p \<noteq> [] \<and> (exists_error e p = Some m \<or>
              (exists_error e p = None \<and> p \<in> files s \<and> remove_error e p = Some m))"
    then have b: "exists_error e p = Some m \<or>
              (exists_error e p = None \<and> p \<in> files s \<and> remove_error e p = Some m)" by simp
    have "snd (cleanupFiles e [Some p] s) = snd (cleanup_path e p s)"
      using a cleanup_path_fst [of e p s] by (simp add: then_do_def ret_def case_prod_beta)
    then show "trace (snd (cleanupFiles e [Some p] s)) =
        trace s @ [ConsoleError (''Error cleaning up file '' @ p @ '': '' @ m)] \<and>
      tasks (snd (cleanupFiles e [Some p] s)) = tasks s \<and>
      files (snd (cleanupFiles e [Some p] s)) \<subseteq> files s"
      using cleanup_path_logged [OF b] by (simp add: same_store_def)
  qed
  have f9: "\<forall>m. exists_error e (chunkDir_of e taskId) = Some m \<or>
          (exists_error e (chunkDir_of e taskId) = None \<and> chunkDir_of e taskId \<in> files s \<and>
           remove_error e (chunkDir_of e taskId) = Some m) \<longrightarrow>
      trace (snd (cleanupChunks e taskId s)) =
        trace s @
          [ConsoleError (''Error cleaning up chunk directory '' @ chunkDir_of e taskId @ '': '' @ m)] \<and>
      tasks (snd (cleanupChunks e taskId s)) = tasks s \<and>
      files (snd (cleanupChunks e taskId s)) \<subseteq> files s"
  proof (intro allI impI)
    fix m
    assume b: "exists_error e (chunkDir_of e taskId) = Some m \<or>
          (exists_error e (chunkDir_of e taskId) = None \<and> chunkDir_of e taskId \<in> files s \<and>
           remove_error e (chunkDir_of e taskId) = Some m)"
    show "trace (snd (cleanupChunks e taskId s)) =
        trace s @
          [ConsoleError (''Error cleaning up chunk directory '' @ chunkDir_of e taskId @ '': '' @ m)] \<and>
      tasks (snd (cleanupChunks e taskId s)) = tasks s \<and>
      files (snd (cleanupChunks e taskId s)) \<subseteq> files s"
      using cleanupChunks_logged [OF b] by (simp add: same_store_def)
  qed
  have f5: "\<forall>m. fst (processVideoTask e taskId url s) \<noteq> Throw m"
    by (simp add: process_no_throw)
  from cleanupFiles_fst [of e filePaths s] cleanupChunks_fst [of e taskId s] finally_fst [of e taskId s]
    f4 f5 f6 f7 f8 f9
  show ?thesis by blast
qed

text \<open>
  On the empty file system, with \<^verbatim>\<open>null\<close>, the empty string and a path that does not exist.
\<close>

theorem cleanup_never_throws_witness:
  "cleanupFiles env0 [None, Some [], Some ''/tmp/gone''] state0 = (Ok (), state0) \<and>
   cleanupChunks env0 ''t1'' state0 = (Ok (), state0)"
proof -
  have h1: "\<forall>p. Some p \<in> set [None, Some [], Some ''/tmp/gone''] \<longrightarrow>
      p \<notin> files state0 \<and> exists_error env0 p = None"
    by (simp add: state0_def env0_def)
  have h2: "chunkDir_of env0 ''t1'' \<notin> files state0 \<and> exists_error env0 (chunkDir_of env0 ''t1'') = None"
    by (simp add: state0_def env0_def)
  from cleanup_never_throws [of env0 "[None, Some [], Some ''/tmp/gone'']" state0 "''t1''" "[]"] h1 h2
  show ?thesis
    by (metis prod.collapse)
qed

end
